theory Spec2Isabelle
  imports Main
begin

section \<open>Texts\<close>

text \<open>
  The generator works on JavaScript strings.  A text is modelled as a \<^typ>\<open>string\<close>;
  a \<^typ>\<open>char\<close> stands for a code unit below 256, which covers every text a VHDL source
  in Latin-1 can hold.  The character classes are those of the regular expressions and of
  \<^verbatim>\<open>String.prototype.trim\<close> restricted to that range.
\<close>

definition is_space :: "char \<Rightarrow> bool" where
  \<comment> \<open>\<^verbatim>\<open>\s\<close>, and the white space and line terminators that \<^verbatim>\<open>trim\<close> strips\<close>
  "is_space c = (c \<in> {CHR 0x09, CHR 0x0A, CHR 0x0B, CHR 0x0C, CHR 0x0D, CHR 0x20, CHR 0xA0})"

definition is_word :: "char \<Rightarrow> bool" where
  \<comment> \<open>\<^verbatim>\<open>\w\<close>\<close>
  "is_word c = (c \<in> set (''abcdefghijklmnopqrstuvwxyz'' @ ''ABCDEFGHIJKLMNOPQRSTUVWXYZ''
                          @ ''0123456789_''))"

definition is_line_terminator :: "char \<Rightarrow> bool" where
  \<comment> \<open>the characters that \<^verbatim>\<open>.\<close> does not match\<close>
  "is_line_terminator c = (c = CHR 0x0A \<or> c = CHR 0x0D)"

definition trim_start :: "string \<Rightarrow> string" where
  "trim_start s = dropWhile is_space s"

definition trim_end :: "string \<Rightarrow> string" where
  "trim_end s = rev (dropWhile is_space (rev s))"

definition trim :: "string \<Rightarrow> string" where
  \<comment> \<open>\<^verbatim>\<open>s.trim()\<close>\<close>
  "trim s = trim_end (trim_start s)"

fun split :: "char \<Rightarrow> string \<Rightarrow> string list" where
  \<comment> \<open>\<^verbatim>\<open>s.split(c)\<close> for a one-character separator; \<^verbatim>\<open>''.split(c)\<close> is \<^verbatim>\<open>['']\<close>\<close>
  "split c [] = [[]]"
| "split c (x # xs) =
     (if x = c then [] # split c xs
      else (case split c xs of
              [] \<Rightarrow> [[x]]
            | w # ws \<Rightarrow> (x # w) # ws))"

definition filter_Boolean :: "string list \<Rightarrow> string list" where
  \<comment> \<open>\<^verbatim>\<open>.filter(Boolean)\<close> on strings: the empty string alone is falsy\<close>
  "filter_Boolean xs = filter (\<lambda>s. s \<noteq> []) xs"

fun join :: "string \<Rightarrow> string list \<Rightarrow> string" where
  \<comment> \<open>\<^verbatim>\<open>xs.join(sep)\<close>\<close>
  "join sep [] = []"
| "join sep [x] = x"
| "join sep (x # y # ys) = x @ sep @ join sep (y # ys)"

fun strip_prefix :: "string \<Rightarrow> string \<Rightarrow> string option" where
  \<comment> \<open>the rest of the text after a literal prefix, when the text starts with it\<close>
  "strip_prefix [] s = Some s"
| "strip_prefix (p # ps) [] = None"
| "strip_prefix (p # ps) (c # cs) = (if p = c then strip_prefix ps cs else None)"

definition startsWith :: "string \<Rightarrow> string \<Rightarrow> bool" where
  \<comment> \<open>\<^verbatim>\<open>s.startsWith(p)\<close>\<close>
  "startsWith s p = (strip_prefix p s \<noteq> None)"

definition first_token :: "string \<Rightarrow> string option" where
  \<comment> \<open>\<^verbatim>\<open>text.match(/^\S+/)?.[0]\<close>; \<open>None\<close> is \<^verbatim>\<open>undefined\<close>\<close>
  "first_token s =
     (let t = takeWhile (\<lambda>c. \<not> is_space c) s in if t = [] then None else Some t)"

definition leading_word :: "string \<Rightarrow> string option" where
  \<comment> \<open>\<^verbatim>\<open>type.match(/^\w+/)?.[0]\<close>\<close>
  "leading_word s = (let t = takeWhile is_word s in if t = [] then None else Some t)"

definition digit_char :: "nat \<Rightarrow> char" where
  "digit_char d = ''0123456789'' ! d"

fun show_nat :: "nat \<Rightarrow> string" where
  \<comment> \<open>the decimal text of an array index inside a template literal\<close>
  "show_nat n =
     (if n < 10 then [digit_char n] else show_nat (n div 10) @ [digit_char (n mod 10)])"

declare show_nat.simps [simp del]

definition nth_or_undefined :: "string list \<Rightarrow> nat \<Rightarrow> string" where
  \<comment> \<open>An element taken by array destructuring.  A missing element is \<^verbatim>\<open>undefined\<close>; every
      use the program makes of such a value (a template literal, a property key, a
      comparison with a different non-empty text) converts it to the text \<^verbatim>\<open>undefined\<close>.\<close>
  "nth_or_undefined xs i = (if i < length xs then xs ! i else ''undefined'')"

section \<open>Plain objects used as dictionaries\<close>

text \<open>
  The tables of the first pass are object literals \<^verbatim>\<open>{}\<close>: their own properties are an
  association list with distinct keys, and a key that is not an own property is looked up
  on \<^verbatim>\<open>Object.prototype\<close>.
\<close>

datatype 'a js_prop = Own 'a | Inherited string | Undefined

definition object_prototype_keys :: "string list" where
  "object_prototype_keys =
     [''constructor'', ''__defineGetter__'', ''__defineSetter__'', ''hasOwnProperty'',
      ''__lookupGetter__'', ''__lookupSetter__'', ''isPrototypeOf'', ''propertyIsEnumerable'',
      ''toString'', ''valueOf'', ''__proto__'', ''toLocaleString'']"

definition js_get :: "(string \<times> 'a) list \<Rightarrow> string \<Rightarrow> 'a js_prop" where
  \<comment> \<open>\<^verbatim>\<open>obj[k]\<close>\<close>
  "js_get obj k =
     (case map_of obj k of
        Some v \<Rightarrow> Own v
      | None \<Rightarrow> if k \<in> set object_prototype_keys then Inherited k else Undefined)"

definition inherited_text :: "string \<Rightarrow> string" where
  \<comment> \<open>the text of a member of \<^verbatim>\<open>Object.prototype\<close> inside a template literal\<close>
  "inherited_text k =
     (if k = ''__proto__'' then ''[object Object]''
      else if k = ''constructor'' then ''function Object() { [native code] }''
      else ''function '' @ k @ ''() { [native code] }'')"

definition prop_text :: "string js_prop \<Rightarrow> string" where
  \<comment> \<open>\<^verbatim>\<open>`${obj[k]}`\<close> for a table of texts\<close>
  "prop_text p =
     (case p of Own s \<Rightarrow> s | Inherited k \<Rightarrow> inherited_text k | Undefined \<Rightarrow> ''undefined'')"

definition is_digit :: "char \<Rightarrow> bool" where
  "is_digit c = (c \<in> set ''0123456789'')"

definition digit_value :: "char \<Rightarrow> nat" where
  "digit_value c = length (takeWhile (\<lambda>d. d \<noteq> c) ''0123456789'')"

definition dec_value :: "string \<Rightarrow> nat" where
  "dec_value s = foldl (\<lambda>a c. 10 * a + digit_value c) 0 s"

definition is_array_index :: "string \<Rightarrow> bool" where
  \<comment> \<open>a canonical numeric key below \<open>2^32 - 1\<close>: such keys are listed first, in numeric order\<close>
  "is_array_index k =
     (k \<noteq> [] \<and> list_all is_digit k \<and> (k = ''0'' \<or> hd k \<noteq> CHR ''0'')
      \<and> dec_value k < 4294967295)"

definition own_entries :: "(string \<times> 'a) list \<Rightarrow> (string \<times> 'a) list" where
  \<comment> \<open>\<^verbatim>\<open>Object.entries(obj)\<close>\<close>
  "own_entries obj =
     sort_key (\<lambda>e. dec_value (fst e)) (filter (\<lambda>e. is_array_index (fst e)) obj)
     @ filter (\<lambda>e. \<not> is_array_index (fst e)) obj"

definition own_keys :: "(string \<times> 'a) list \<Rightarrow> string list" where
  \<comment> \<open>\<^verbatim>\<open>Object.keys(obj)\<close>\<close>
  "own_keys obj = map fst (own_entries obj)"

definition js_set :: "(string \<times> 'a) list \<Rightarrow> string \<Rightarrow> 'a \<Rightarrow> (string \<times> 'a) list" where
  \<comment> \<open>\<^verbatim>\<open>obj[k] = v\<close>: an existing key keeps its place, a new key goes last.  Assigning to
      \<^verbatim>\<open>__proto__\<close> runs the inherited setter and creates no own property.\<close>
  "js_set obj k v =
     (if k = ''__proto__'' then obj
      else if k \<in> fst ` set obj then map (\<lambda>e. if fst e = k then (k, v) else e) obj
      else obj @ [(k, v)])"

section \<open>Type bounds\<close>

record bounds =
  low :: string
  high :: string
  converter :: "string \<Rightarrow> string"

text \<open>
  A range is the \<^verbatim>\<open>simple_range\<close> node of the parser; the function reads the texts of its
  first three children: left bound, direction keyword, right bound.
\<close>

type_synonym range = "string \<times> string \<times> string"

definition vector_length :: "range \<Rightarrow> string" where
  "vector_length r =
     (case r of (left, kind, right) \<Rightarrow>
        let reversed = (kind = ''to'') in
        ''(('' @ (if reversed then right else left) @ '') - (''
             @ (if reversed then left else right) @ '') + 1)'')"

definition getTypeBounds :: "string \<Rightarrow> range option \<Rightarrow> string list \<times> bounds" where
  \<comment> \<open>the first component holds the lines given to \<^verbatim>\<open>console.warn\<close>\<close>
  "getTypeBounds type rng =
     (let ignored = \<lparr>low = '''', high = '''', converter = (\<lambda>i. '''')\<rparr>;
          unknown = ([''Unknown type '' @ type @ ''. ignoring it.''], ignored)
      in
      case leading_word type of
        None \<Rightarrow> unknown
      | Some name \<Rightarrow>
          if name \<in> {''bit'', ''std_logic'', ''std_ulogic''} then
            ([], \<lparr>low = ''0'', high = ''1'',
                   converter = (\<lambda>i. type @ [CHR 0x27] @ ''val('' @ i @ '')'')\<rparr>)
          else if name \<in> {''std_ulogic_vector'', ''std_logic_vector''} then
            (case rng of
               None \<Rightarrow>
                 ([''Incomplete type '' @ type @ '' without a range. ignoring it.''], ignored)
             | Some r \<Rightarrow>
                 ([], \<lparr>low = ''0'', high = ''2 ** '' @ vector_length r @ '' - 1'',
                        converter = (\<lambda>i. name @ ''(to_unsigned('' @ i @ '', ''
                                            @ vector_length r @ ''))'')\<rparr>))
          else unknown)"

section \<open>First pass: the ports of an entity\<close>

record port_info = bounds +
  mode :: string
  type :: string

datatype error = AssertionError | TypeError

text \<open>
  An \<^verbatim>\<open>interface_declaration\<close> node as the loop reads it: the texts of the identifiers
  of its first child, the node type of its third child with the texts of that child's
  first two children (mode and type), and the type's first \<^verbatim>\<open>simple_range\<close>.
\<close>

record interface_declaration =
  identifiers :: "string list"
  indication :: string
  mode_text :: string
  type_text :: string
  simple_range :: "range option"

type_synonym pins = "(string \<times> port_info) list"

definition add_interface :: "pins \<Rightarrow> interface_declaration \<Rightarrow> error + pins" where
  "add_interface ps decl =
     (if indication decl \<noteq> ''simple_mode_indication'' then Inl AssertionError
      else
        let b = snd (getTypeBounds (type_text decl) (simple_range decl)) in
        Inr (foldl (\<lambda>ps port.
               js_set ps (trim port)
                 \<lparr>low = low b, high = high b, converter = converter b,
                  mode = mode_text decl, type = type_text decl\<rparr>)
             ps (identifiers decl)))"

fun add_interfaces :: "pins \<Rightarrow> interface_declaration list \<Rightarrow> error + pins" where
  "add_interfaces ps [] = Inr ps"
| "add_interfaces ps (decl # decls) =
     (case add_interface ps decl of
        Inl e \<Rightarrow> Inl e
      | Inr ps' \<Rightarrow> add_interfaces ps' decls)"

section \<open>Second pass: the directives\<close>

record gen_state =
  entity :: string
  testbench :: string
  sync :: string
  clock :: string

definition defaultState :: gen_state where
  "defaultState = \<lparr>entity = '''', testbench = '''', sync = ''1 ns'', clock = ''''\<rparr>"

record tables =
  entityClauses :: "(string \<times> string) list"
  entityPins :: "(string \<times> pins) list"
  entityHeads :: "(string \<times> string) list"

text \<open>
  The second pass looks an entity up in the tables by the name a directive gives.  A name
  that is inherited from \<^verbatim>\<open>Object.prototype\<close> yields a function (or the prototype itself),
  which has no enumerable own property.  Console output is not part of the model.
\<close>

subsection \<open>The regular expressions of the directives\<close>

fun strip_prefix_ci :: "string list \<Rightarrow> string \<Rightarrow> string option" where
  \<comment> \<open>a literal prefix under the \<^verbatim>\<open>i\<close> flag: each position lists the characters it admits\<close>
  "strip_prefix_ci [] s = Some s"
| "strip_prefix_ci (p # ps) [] = None"
| "strip_prefix_ci (p # ps) (c # cs) = (if c \<in> set p then strip_prefix_ci ps cs else None)"

definition duration_here :: "string \<Rightarrow> string option" where
  \<comment> \<open>\<^verbatim>\<open>every (.+);$\<close> under the \<^verbatim>\<open>i\<close> flag, matched at the start of the text: the group
      is all that lies between the keyword and the final semicolon\<close>
  "duration_here s =
     (case strip_prefix_ci [''eE'', ''vV'', ''eE'', ''rR'', ''yY'', '' ''] s of
        None \<Rightarrow> None
      | Some r \<Rightarrow>
          if r \<noteq> [] \<and> last r = CHR '';'' \<and> butlast r \<noteq> []
             \<and> \<not> list_ex is_line_terminator (butlast r)
          then Some (butlast r) else None)"

fun search_duration :: "bool \<Rightarrow> string \<Rightarrow> string option" where
  \<comment> \<open>\<^verbatim>\<open>text.match(/\bevery (.+);$/i)?.[1]\<close>: the leftmost position with a word boundary
      where the pattern matches; the flag tells whether the previous character is a word
      character\<close>
  "search_duration w [] = None"
| "search_duration w (c # cs) =
     (case (if is_word c \<noteq> w then duration_here (c # cs) else None) of
        Some d \<Rightarrow> Some d
      | None \<Rightarrow> search_duration (is_word c) cs)"

definition match_clock :: "string \<Rightarrow> string option" where
  \<comment> \<open>\<^verbatim>\<open>text.match(/^sync \(([^)]+)\)/)?.[1]\<close>\<close>
  "match_clock text =
     (case strip_prefix ''sync ('' text of
        None \<Rightarrow> None
      | Some r \<Rightarrow>
          let x = takeWhile (\<lambda>c. c \<noteq> CHR '')'') r in
          if x \<noteq> [] \<and> dropWhile (\<lambda>c. c \<noteq> CHR '')'') r \<noteq> [] then Some x else None)"

definition match_every :: "string \<Rightarrow> string option" where
  \<comment> \<open>\<^verbatim>\<open>text.match(/^every \(([^)]+)\);$/)?.[1]\<close>\<close>
  "match_every text =
     (case strip_prefix ''every ('' text of
        None \<Rightarrow> None
      | Some r \<Rightarrow>
          let x = takeWhile (\<lambda>c. c \<noteq> CHR '')'') r in
          if x \<noteq> [] \<and> dropWhile (\<lambda>c. c \<noteq> CHR '')'') r = '');'' then Some x else None)"

definition match_set :: "string \<Rightarrow> string option" where
  \<comment> \<open>\<^verbatim>\<open>text.match(/^set \((.+)\);$/)?.[1]\<close>\<close>
  "match_set text =
     (case strip_prefix ''set ('' text of
        None \<Rightarrow> None
      | Some r \<Rightarrow>
          let x = take (length r - 2) r in
          if x \<noteq> [] \<and> drop (length r - 2) r = '');'' \<and> \<not> list_ex is_line_terminator x
          then Some x else None)"

subsection \<open>The cases of the switch\<close>

definition testbench_directive :: "tables \<Rightarrow> string \<Rightarrow> gen_state \<times> string" where
  \<comment> \<open>the new state and the text appended to the output\<close>
  "testbench_directive tabs text =
     (let toks = filter_Boolean (split (CHR '' '') text);
          name = nth_or_undefined toks 1;
          entity = nth_or_undefined toks 3;
          state = defaultState\<lparr>entity := entity,
                    testbench := (if name = ''tb'' then entity @ ''_tb''
                                  else entity @ ''_tb_'' @ name)\<rparr>
      in (state,
          prop_text (js_get (entityClauses tabs) (gen_state.entity state))
            @ ''\<newline>entity '' @ testbench state @ '' is end;\<newline>\<newline>''))"

definition sync_directive :: "gen_state \<Rightarrow> string \<Rightarrow> gen_state" where
  "sync_directive state text =
     state\<lparr>sync := (case search_duration False text of Some d \<Rightarrow> d | None \<Rightarrow> ''1 ns''),
           clock := (case match_clock text of Some c \<Rightarrow> c | None \<Rightarrow> '''')\<rparr>"

definition entries_of :: "pins js_prop \<Rightarrow> error + pins" where
  \<comment> \<open>\<^verbatim>\<open>Object.entries(entityPins[state.entity])\<close>, which throws on \<^verbatim>\<open>undefined\<close>\<close>
  "entries_of p =
     (case p of
        Undefined \<Rightarrow> Inl TypeError
      | Inherited k \<Rightarrow> Inr []
      | Own ps \<Rightarrow> Inr (own_entries ps))"

definition signal_declarations :: "gen_state \<Rightarrow> pins \<Rightarrow> string" where
  \<comment> \<open>the first loop of \<^verbatim>\<open>begin\<close>, over the entries\<close>
  "signal_declarations state es =
     concat (map (\<lambda>e. ''signal '' @ fst e @ '' : '' @ type (snd e)
                       @ (if fst e = clock state then '' := '' @ [CHR 0x27] @ ''0'' @ [CHR 0x27]
                          else '''')
                       @ '';\<newline>'') es)"

definition port_map :: "string list \<Rightarrow> string" where
  \<comment> \<open>the second loop of \<^verbatim>\<open>begin\<close>, over the keys with their positions\<close>
  "port_map ks =
     concat (map (\<lambda>(i, pin). (if i = 0 then '''' else '', '') @ pin @ '' => '' @ pin)
                 (enumerate 0 ks))"

definition begin_directive :: "tables \<Rightarrow> gen_state \<Rightarrow> error + string" where
  \<comment> \<open>the text appended to the output\<close>
  "begin_directive tabs state =
     (case entries_of (js_get (entityPins tabs) (entity state)) of
        Inl e \<Rightarrow> Inl e
      | Inr es \<Rightarrow>
          Inr (''architecture tb of '' @ testbench state @ '' is\<newline>''
               @ ''component '' @ entity state @ '' ''
               @ prop_text (js_get (entityHeads tabs) (entity state)) @ ''\<newline>''
               @ ''end component;\<newline>\<newline>''
               @ signal_declarations state es
               @ ''signal tb_done : bit := '' @ [CHR 0x27] @ ''0'' @ [CHR 0x27] @ '';\<newline>''
               @ ''begin\<newline>''
               @ ''dut : '' @ entity state @ '' port map(''
               @ port_map (map fst es)
               @ '');\<newline>\<newline>''
               @ (if clock state \<noteq> '''' then
                    clock state @ '' <= not '' @ clock state @ '' after 0.5 * '' @ sync state
                      @ '' when tb_done = '' @ [CHR 0x27] @ ''0'' @ [CHR 0x27]
                      @ '' else '' @ [CHR 0x27] @ ''0'' @ [CHR 0x27] @ '';\<newline>\<newline>''
                  else '''')
               @ ''process\<newline>begin\<newline>''))"

text \<open>
  The elements of \<^verbatim>\<open>names\<close> in \<^verbatim>\<open>every\<close> are \<^verbatim>\<open>{name, ...pins[name]}\<close>: the name
  with the port's fields, or the name alone when \<^verbatim>\<open>pins[name]\<close> is not a port (then
  \<^verbatim>\<open>n.converter\<close> is \<^verbatim>\<open>undefined\<close> and calling it throws).
\<close>

definition every_list :: "pins js_prop \<Rightarrow> string \<Rightarrow> error + string list" where
  \<comment> \<open>the trimmed names: the explicit list, or else the keys of the pins\<close>
  "every_list p text =
     (case (case match_every text of
              Some x \<Rightarrow> Inr x
            | None \<Rightarrow>
                (case p of
                   Undefined \<Rightarrow> Inl TypeError
                 | Inherited k \<Rightarrow> Inr (join '','' [])
                 | Own ps \<Rightarrow> Inr (join '','' (own_keys ps)))) of
        Inl e \<Rightarrow> Inl e
      | Inr l \<Rightarrow> Inr (map trim (filter_Boolean (split (CHR '','') l))))"

definition every_name :: "pins js_prop \<Rightarrow> string \<Rightarrow> error + string \<times> port_info option" where
  \<comment> \<open>\<^verbatim>\<open>{name, ...pins[name]}\<close>\<close>
  "every_name p name =
     (case p of
        Undefined \<Rightarrow> Inl TypeError
      | Inherited k \<Rightarrow> Inr (name, None)
      | Own ps \<Rightarrow>
          (case js_get ps name of
             Own info \<Rightarrow> Inr (name, Some info)
           | Inherited k \<Rightarrow> Inr (name, None)
           | Undefined \<Rightarrow> Inr (name, None)))"

definition every_loop :: "nat \<times> string \<times> port_info option \<Rightarrow> error + string" where
  \<comment> \<open>the opening of the loop of index \<open>i\<close>\<close>
  "every_loop x =
     (case x of
        (i, name, None) \<Rightarrow> Inl TypeError
      | (i, name, Some n) \<Rightarrow>
          Inr (''for i_'' @ show_nat i @ '' in '' @ low n @ '' to '' @ high n @ '' loop\<newline>''
               @ name @ '' <= '' @ converter n (''i_'' @ show_nat i) @ '';\<newline>''))"

fun sequence :: "(error + 'a) list \<Rightarrow> error + 'a list" where
  \<comment> \<open>the results of a \<^verbatim>\<open>map\<close> whose callback may throw: the first error ends it\<close>
  "sequence [] = Inr []"
| "sequence (Inl e # xs) = Inl e"
| "sequence (Inr v # xs) = (case sequence xs of Inl e \<Rightarrow> Inl e | Inr vs \<Rightarrow> Inr (v # vs))"

definition every_directive :: "tables \<Rightarrow> gen_state \<Rightarrow> string \<Rightarrow> error + string" where
  \<comment> \<open>the text appended to the output\<close>
  "every_directive tabs state text =
     (let p = js_get (entityPins tabs) (entity state) in
      case every_list p text of
        Inl e \<Rightarrow> Inl e
      | Inr l \<Rightarrow>
          (case sequence (map (every_name p) l) of
             Inl e \<Rightarrow> Inl e
           | Inr names \<Rightarrow>
               (case sequence (map every_loop (enumerate 0 names)) of
                  Inl e \<Rightarrow> Inl e
                | Inr loops \<Rightarrow>
                    Inr (concat loops
                         @ ''wait for '' @ sync state @ '';\<newline>''
                         @ concat (map (\<lambda>n. ''end loop;\<newline>'') names) @ ''\<newline>''))))"

definition set_directive :: "gen_state \<Rightarrow> string \<Rightarrow> string" where
  "set_directive state text =
     (let defs = (case match_set text of Some x \<Rightarrow> x | None \<Rightarrow> '''') in
      concat (map (\<lambda>i. trim i @ '';\<newline>'') (filter_Boolean (split (CHR '';'') defs)))
      @ ''wait for '' @ sync state @ '';\<newline>\<newline>'')"

definition end_directive :: string where
  "end_directive =
     ''tb_done <= '' @ [CHR 0x27] @ ''1'' @ [CHR 0x27] @ '';\<newline>''
     @ ''wait;\<newline>'' @ ''end process;\<newline>'' @ ''end;\<newline>\<newline>''"

subsection \<open>The loop over the line comments\<close>

type_synonym machine = "gen_state option \<times> string"

definition directive :: "tables \<Rightarrow> machine \<Rightarrow> string \<Rightarrow> error + machine" where
  \<comment> \<open>one round of the loop on the trimmed text of a comment; the machine is the pair of
      \<^verbatim>\<open>state\<close> and \<^verbatim>\<open>output\<close>\<close>
  "directive tabs m text =
     (case m of (state, out) \<Rightarrow>
        if state = None \<and> \<not> startsWith text ''testbench '' then Inr m
        else
          let kw = first_token text in
          if kw = Some ''testbench'' then
            (case testbench_directive tabs text of (st, frag) \<Rightarrow> Inr (Some st, out @ frag))
          else if kw = Some ''sync'' then
            (case state of
               None \<Rightarrow> Inl AssertionError
             | Some st \<Rightarrow> Inr (Some (sync_directive st text), out))
          else if kw = Some ''begin'' then
            (case state of
               None \<Rightarrow> Inl AssertionError
             | Some st \<Rightarrow>
                 (case begin_directive tabs st of
                    Inl e \<Rightarrow> Inl e
                  | Inr frag \<Rightarrow> Inr (Some st, out @ frag)))
          else if kw = Some ''every'' then
            (case state of
               None \<Rightarrow> Inl AssertionError
             | Some st \<Rightarrow>
                 (case every_directive tabs st text of
                    Inl e \<Rightarrow> Inl e
                  | Inr frag \<Rightarrow> Inr (Some st, out @ frag)))
          else if kw = Some ''set'' then
            (case state of
               None \<Rightarrow> Inl AssertionError
             | Some st \<Rightarrow> Inr (Some st, out @ set_directive st text))
          else if kw = Some ''end'' \<or> kw = Some ''end;'' then
            (case state of
               None \<Rightarrow> Inl AssertionError
             | Some st \<Rightarrow> Inr (None, out @ end_directive))
          else Inr m)"

definition line_comment :: "tables \<Rightarrow> machine \<Rightarrow> string option \<Rightarrow> error + machine" where
  \<comment> \<open>a \<^verbatim>\<open>line_comment\<close> node, given as the text of its first child when it has one\<close>
  "line_comment tabs m node =
     (case node of
        None \<Rightarrow> Inl AssertionError
      | Some raw \<Rightarrow> directive tabs m (trim raw))"

fun second_pass :: "tables \<Rightarrow> machine \<Rightarrow> string option list \<Rightarrow> error + machine" where
  "second_pass tabs m [] = Inr m"
| "second_pass tabs m (node # nodes) =
     (case line_comment tabs m node of
        Inl e \<Rightarrow> Inl e
      | Inr m' \<Rightarrow> second_pass tabs m' nodes)"

section \<open>Writing the output\<close>

function collapse :: "string \<Rightarrow> string" where
  \<comment> \<open>\<^verbatim>\<open>output.replace(/\n{3,}/g, '\n\n')\<close>: every maximal run of three or more line
      breaks becomes two\<close>
  "collapse [] = []"
| "collapse (c # cs) =
     (if c = CHR 0x0A then
        (let run = takeWhile (\<lambda>x. x = CHR 0x0A) (c # cs) in
         (if 3 \<le> length run then ''\<newline>\<newline>'' else run)
         @ collapse (dropWhile (\<lambda>x. x = CHR 0x0A) (c # cs)))
      else c # collapse cs)"
  by pat_completeness auto
termination
  by (relation "measure length") (auto simp: less_Suc_eq_le length_dropWhile_le)

definition compose :: "string \<Rightarrow> string" where
  \<comment> \<open>the text given to \<^verbatim>\<open>writeFileSync\<close>\<close>
  "compose out = trim (collapse out) @ ''\<newline>''"

section \<open>Reading the emitted text\<close>

text \<open>
  The bounds are VHDL expression texts.  To speak of their values, an expression is given
  as a tree with its text; the leaves \<open>Text\<close> are the bound texts of the source, whose
  values an environment supplies.  \<^verbatim>\<open>**\<close> binds tighter than \<^verbatim>\<open>-\<close> and \<^verbatim>\<open>+\<close>, which
  associate to the left.
\<close>

datatype expr =
    Lit nat
  | Text string
  | Paren expr
  | Minus expr expr
  | Plus expr expr
  | Power expr expr

fun render :: "expr \<Rightarrow> string" where
  "render (Lit n) = show_nat n"
| "render (Text s) = s"
| "render (Paren e) = ''('' @ render e @ '')''"
| "render (Minus a b) = render a @ '' - '' @ render b"
| "render (Plus a b) = render a @ '' + '' @ render b"
| "render (Power a b) = render a @ '' ** '' @ render b"

fun eval :: "(string \<Rightarrow> int) \<Rightarrow> expr \<Rightarrow> int" where
  "eval env (Lit n) = int n"
| "eval env (Text s) = env s"
| "eval env (Paren e) = eval env e"
| "eval env (Minus a b) = eval env a - eval env b"
| "eval env (Plus a b) = eval env a + eval env b"
| "eval env (Power a b) = eval env a ^ nat (eval env b)"

definition length_expr :: "string \<Rightarrow> string \<Rightarrow> expr" where
  \<comment> \<open>the width of a vector from its upper and lower bound\<close>
  "length_expr upper lower = Paren (Plus (Minus (Paren (Text upper)) (Paren (Text lower))) (Lit 1))"

definition high_expr :: "string \<Rightarrow> string \<Rightarrow> expr" where
  "high_expr upper lower = Minus (Power (Lit 2) (length_expr upper lower)) (Lit 1)"

definition domain_size :: "int \<Rightarrow> int \<Rightarrow> nat" where
  \<comment> \<open>the number of values from a low to a high bound\<close>
  "domain_size lo hi = nat (hi - lo + 1)"

text \<open>
  The fragment of \<^verbatim>\<open>every\<close> is a sequence of VHDL statements.  A loop
  \<^verbatim>\<open>for v in lo to hi loop\<close> runs its body once for each value from \<open>lo\<close> to \<open>hi\<close>, in
  ascending order; the run of a fragment is the list of its signal assignments (with the
  values of the loop variables at that moment) and waits.
\<close>

datatype stmt =
    Assign string string
  | Wait string
  | For string string string "stmt list"

fun render_stmt :: "stmt \<Rightarrow> string" where
  "render_stmt (Assign s e) = s @ '' <= '' @ e @ '';\<newline>''"
| "render_stmt (Wait d) = ''wait for '' @ d @ '';\<newline>''"
| "render_stmt (For v lo hi body) =
     ''for '' @ v @ '' in '' @ lo @ '' to '' @ hi @ '' loop\<newline>''
     @ concat (map render_stmt body) @ ''end loop;\<newline>''"

datatype event = Driven string string "(string \<times> int) list" | Waited string

fun exec :: "(string \<Rightarrow> int) \<Rightarrow> (string \<times> int) list \<Rightarrow> stmt \<Rightarrow> event list" where
  "exec val vars (Assign s e) = [Driven s e vars]"
| "exec val vars (Wait d) = [Waited d]"
| "exec val vars (For v lo hi body) =
     concat (map (\<lambda>j. concat (map (exec val ((v, j) # vars)) body)) [val lo..val hi])"

fun is_wait :: "event \<Rightarrow> bool" where
  "is_wait (Waited d) = True"
| "is_wait (Driven s e vars) = False"

text \<open>
  Inside a loop its parameter hides every other object of the same name, the port of the
  entity included, and a loop parameter may not be the target of an assignment.  VHDL
  identifiers are compared without regard to the case of their letters.  A fragment is
  legal when none of its assignments has a loop parameter in scope as its target.
\<close>

definition lower_char :: "char \<Rightarrow> char" where
  "lower_char c =
     (case map_of (zip ''ABCDEFGHIJKLMNOPQRSTUVWXYZ'' ''abcdefghijklmnopqrstuvwxyz'') c of
        Some l \<Rightarrow> l
      | None \<Rightarrow> c)"

definition same_identifier :: "string \<Rightarrow> string \<Rightarrow> bool" where
  "same_identifier a b = (map lower_char a = map lower_char b)"

fun legal :: "string list \<Rightarrow> stmt \<Rightarrow> bool" where
  "legal params (Assign s e) = (\<not> list_ex (same_identifier s) params)"
| "legal params (Wait d) = True"
| "legal params (For v lo hi body) = list_all (legal (v # params)) body"

fun nest :: "(nat \<times> string \<times> port_info) list \<Rightarrow> string \<Rightarrow> stmt list" where
  \<comment> \<open>the loops over the given signals, the first outermost, around one wait\<close>
  "nest [] d = [Wait d]"
| "nest ((i, name, n) # rest) d =
     [For (''i_'' @ show_nat i) (low n) (high n)
        (Assign name (converter n (''i_'' @ show_nat i)) # nest rest d)]"

fun first_seen :: "'a list \<Rightarrow> 'a list" where
  \<comment> \<open>the elements in the order of their first occurrence\<close>
  "first_seen [] = []"
| "first_seen (x # xs) = x # filter (\<lambda>y. y \<noteq> x) (first_seen xs)"

definition plain_key :: "string \<Rightarrow> bool" where
  \<comment> \<open>a key that an object lists in insertion order; every VHDL identifier is one, as it
      starts with a letter\<close>
  "plain_key k = (\<not> is_array_index k \<and> k \<noteq> ''__proto__'')"

section \<open>An example: the half adder\<close>

definition std_logic_port :: "string \<Rightarrow> port_info" where
  "std_logic_port m =
     \<lparr>low = ''0'', high = ''1'',
      converter = (\<lambda>i. ''std_logic'' @ [CHR 0x27] @ ''val('' @ i @ '')''),
      mode = m, type = ''std_logic''\<rparr>"

definition ha_interfaces :: "interface_declaration list" where
  "ha_interfaces =
     [\<lparr>identifiers = [''a'', ''b''], indication = ''simple_mode_indication'',
       mode_text = ''in'', type_text = ''std_logic'', simple_range = None\<rparr>,
      \<lparr>identifiers = [''s'', ''co''], indication = ''simple_mode_indication'',
       mode_text = ''out'', type_text = ''std_logic'', simple_range = None\<rparr>]"

definition ha_pins :: pins where
  "ha_pins =
     [(''a'', std_logic_port ''in''), (''b'', std_logic_port ''in''),
      (''s'', std_logic_port ''out''), (''co'', std_logic_port ''out'')]"

definition ha_tables :: tables where
  "ha_tables =
     \<lparr>entityClauses = [(''ha'', ''library ieee;\<newline>use ieee.std_logic_1164.all;\<newline>'')],
      entityPins = [(''ha'', ha_pins)],
      entityHeads = [(''ha'', ''is port (a, b : in std_logic; s, co : out std_logic);'')]\<rparr>"

definition ha_state :: gen_state where
  "ha_state = \<lparr>entity = ''ha'', testbench = ''ha_tb'', sync = ''5 ns'', clock = ''clk''\<rparr>"

text \<open>An entity with a port that bears the name of a loop index.\<close>

definition probe_tables :: tables where
  "probe_tables =
     \<lparr>entityClauses = [(''probe'', '''')],
      entityPins = [(''probe'', [(''i_0'', std_logic_port ''in'')])],
      entityHeads = [(''probe'', ''is port (i_0 : in std_logic);'')]\<rparr>"

definition probe_state :: gen_state where
  "probe_state = \<lparr>entity = ''probe'', testbench = ''probe_tb'', sync = ''1 ns'', clock = ''''\<rparr>"

section \<open>Notions used in the proofs\<close>

fun triple_free :: "string \<Rightarrow> bool" where
  \<comment> \<open>no three line breaks in a row\<close>
  "triple_free (a # b # c # s) =
     (\<not> (a = CHR 0x0A \<and> b = CHR 0x0A \<and> c = CHR 0x0A) \<and> triple_free (b # c # s))"
| "triple_free s = True"

definition trimmed :: "string \<Rightarrow> bool" where
  \<comment> \<open>no white space at either end\<close>
  "trimmed t = (t = [] \<or> (\<not> is_space (hd t) \<and> \<not> is_space (last t)))"

section \<open>Properties\<close>

subsection \<open>Helper facts on texts\<close>

lemma strip_prefix_Some: "strip_prefix p s = Some r \<longleftrightarrow> s = p @ r"
  by (induction p s rule: strip_prefix.induct) auto

lemma startsWith_testbench_token:
  assumes "startsWith text ''testbench ''"
  shows "first_token text = Some ''testbench''"
proof -
  from assms obtain r where "text = ''testbench '' @ r"
    by (auto simp: startsWith_def strip_prefix_Some)
  then show ?thesis by (simp add: first_token_def is_space_def)
qed

lemmas trim_defs = trim_def trim_start_def trim_end_def is_space_def

subsection \<open>Directives outside a block\<close>

text \<open>
  Claim C1, as amended.  The claim says that a \<^verbatim>\<open>begin\<close>, \<^verbatim>\<open>every\<close>, \<^verbatim>\<open>set\<close> or \<^verbatim>\<open>end\<close>
  directive met while no generation state is active is a fatal failure.  The guard at
  the head of the loop skips such a comment before the switch is reached: every comment
  that does not start with \<^verbatim>\<open>testbench \<close> leaves the state absent and the output as it
  was, and the run goes on.
\<close>

theorem idle_directive_skipped:
  "\<not> startsWith (trim raw) ''testbench '' \<Longrightarrow>
     line_comment tabs (None, out) (Some raw) = Inr (None, out)"
  by (simp add: line_comment_def directive_def)

theorem idle_directive_skipped_witness:
  "\<not> startsWith (trim ''every (a);'') ''testbench ''
   \<and> line_comment ha_tables (None, ''x'') (Some ''every (a);'') = Inr (None, ''x'')"
  using idle_directive_skipped [of "''every (a);''" ha_tables "''x''"]
  by (simp add: startsWith_def trim_defs)

text \<open>
  The claim C1 as stated fails: a run of the four body directives with no open block ends
  without an error and with an empty output.
\<close>

theorem idle_directive_fatal_counterexample:
  "second_pass ha_tables (None, '''')
     [Some ''begin'', Some ''every (a);'', Some ''set (a <= 1);'', Some ''end;'']
   = Inr (None, '''')"
  by (simp add: line_comment_def directive_def startsWith_def trim_defs)

subsection \<open>The sync directive\<close>

text \<open>
  Claim C3, as amended.  A directive \<^verbatim>\<open>sync every <dur>;\<close> inside a block sets the sync
  duration to \<^verbatim>\<open><dur>\<close> and sets the clock signal to the empty text; the entity, the
  testbench name and the output are unchanged.
\<close>

theorem sync_every_sets_duration_and_clears_clock:
  assumes "dur \<noteq> []" and "\<not> list_ex is_line_terminator dur"
  shows "directive tabs (Some st, out) (''sync every '' @ dur @ '';'')
         = Inr (Some (st\<lparr>sync := dur, clock := ''''\<rparr>), out)"
proof -
  let ?text = "''sync every '' @ dur @ '';''"
  have tok: "first_token ?text = Some ''sync''"
    by (simp add: first_token_def is_space_def)
  have dur: "search_duration False ?text = Some dur"
    using assms by (simp add: duration_here_def is_word_def)
  have clk: "match_clock ?text = None"
    by (simp add: match_clock_def)
  show ?thesis
    using tok dur clk by (simp add: directive_def sync_directive_def Let_def)
qed

theorem sync_every_sets_duration_and_clears_clock_witness:
  "''10 ns'' \<noteq> [] \<and> \<not> list_ex is_line_terminator ''10 ns''
   \<and> directive ha_tables (Some ha_state, '''') ''sync every 10 ns;''
       = Inr (Some \<lparr>entity = ''ha'', testbench = ''ha_tb'', sync = ''10 ns'', clock = ''''\<rparr>,
              '''')"
  using sync_every_sets_duration_and_clears_clock
          [of "''10 ns''" ha_tables ha_state "''''"]
  by (simp add: is_line_terminator_def ha_state_def)

text \<open>
  The claim C3 as stated fails: the clock signal set by \<^verbatim>\<open>sync (clk) every 5 ns;\<close> is
  gone after \<^verbatim>\<open>sync every 10 ns;\<close> in the same block.
\<close>

theorem sync_every_keeps_clock_counterexample:
  "second_pass ha_tables (None, '''')
     [Some ''testbench tb of ha is'', Some ''sync (clk) every 5 ns;'']
   = Inr (Some \<lparr>entity = ''ha'', testbench = ''ha_tb'', sync = ''5 ns'', clock = ''clk''\<rparr>,
          ''library ieee;\<newline>use ieee.std_logic_1164.all;\<newline>\<newline>entity ha_tb is end;\<newline>\<newline>'')
   \<and> second_pass ha_tables (None, '''')
     [Some ''testbench tb of ha is'', Some ''sync (clk) every 5 ns;'',
      Some ''sync every 10 ns;'']
   = Inr (Some \<lparr>entity = ''ha'', testbench = ''ha_tb'', sync = ''10 ns'', clock = ''''\<rparr>,
          ''library ieee;\<newline>use ieee.std_logic_1164.all;\<newline>\<newline>entity ha_tb is end;\<newline>\<newline>'')"
  by (simp add: line_comment_def directive_def startsWith_def trim_defs first_token_def
        testbench_directive_def filter_Boolean_def nth_or_undefined_def defaultState_def
        js_get_def prop_text_def ha_tables_def sync_directive_def duration_here_def
        is_word_def is_line_terminator_def match_clock_def Let_def)

subsection \<open>The testbench directive\<close>

text \<open>
  Claim C5.  A \<^verbatim>\<open>testbench\<close> directive, whatever the state before it (none, or the state
  of an earlier block with any sync duration and clock signal), yields a state whose sync
  duration is \<^verbatim>\<open>1 ns\<close> and whose clock signal is empty, with the entity and the testbench
  name parsed from the directive.
\<close>

theorem testbench_resets_state:
  assumes "startsWith text ''testbench ''"
  shows "directive tabs (state, out) text
           = Inr (Some (fst (testbench_directive tabs text)),
                  out @ snd (testbench_directive tabs text))
         \<and> fst (testbench_directive tabs text)
             = \<lparr>entity = nth_or_undefined (filter_Boolean (split (CHR '' '') text)) 3,
                testbench =
                  (if nth_or_undefined (filter_Boolean (split (CHR '' '') text)) 1 = ''tb''
                   then nth_or_undefined (filter_Boolean (split (CHR '' '') text)) 3 @ ''_tb''
                   else nth_or_undefined (filter_Boolean (split (CHR '' '') text)) 3 @ ''_tb_''
                        @ nth_or_undefined (filter_Boolean (split (CHR '' '') text)) 1),
                sync = ''1 ns'', clock = ''''\<rparr>"
  using assms startsWith_testbench_token [OF assms]
  by (simp add: directive_def testbench_directive_def defaultState_def Let_def
        split: prod.splits)

theorem testbench_resets_state_witness:
  "startsWith ''testbench wide of ha is'' ''testbench ''
   \<and> directive ha_tables (Some ha_state, '''') ''testbench wide of ha is''
       = Inr (Some \<lparr>entity = ''ha'', testbench = ''ha_tb_wide'', sync = ''1 ns'',
                    clock = ''''\<rparr>,
              ''library ieee;\<newline>use ieee.std_logic_1164.all;\<newline>\<newline>entity ha_tb_wide is end;\<newline>\<newline>'')"
  using testbench_resets_state [of "''testbench wide of ha is''" ha_tables "Some ha_state" "''''"]
  by (simp add: startsWith_def testbench_directive_def filter_Boolean_def
        nth_or_undefined_def defaultState_def js_get_def prop_text_def ha_tables_def Let_def)

subsection \<open>The type bound resolver\<close>

text \<open>
  Claim C7.  \<open>getTypeBounds\<close> has no failing path: its result is always a pair of
  warnings and bounds.  When the leading word of the type is none of the five recognised
  names, or names a vector type while no range is given, the bounds are the degraded ones
  (\<open>low\<close> and \<open>high\<close> empty, a converter that yields the empty text for every input) and
  exactly one warning is emitted.
\<close>

theorem getTypeBounds_degrades_softly:
  assumes "leading_word ty \<notin> Some ` {''bit'', ''std_logic'', ''std_ulogic'',
                                       ''std_ulogic_vector'', ''std_logic_vector''}
           \<or> (leading_word ty \<in> Some ` {''std_ulogic_vector'', ''std_logic_vector''}
              \<and> rng = None)"
  shows "low (snd (getTypeBounds ty rng)) = ''''
         \<and> high (snd (getTypeBounds ty rng)) = ''''
         \<and> (\<forall>i. converter (snd (getTypeBounds ty rng)) i = '''')
         \<and> fst (getTypeBounds ty rng)
             = [if leading_word ty \<in> Some ` {''std_ulogic_vector'', ''std_logic_vector''}
                then ''Incomplete type '' @ ty @ '' without a range. ignoring it.''
                else ''Unknown type '' @ ty @ ''. ignoring it.'']"
  using assms
  by (cases "leading_word ty") (auto simp: getTypeBounds_def Let_def)

theorem getTypeBounds_degrades_softly_witness:
  "(leading_word ''integer range 0 to 7''
      \<notin> Some ` {''bit'', ''std_logic'', ''std_ulogic'', ''std_ulogic_vector'',
                  ''std_logic_vector''}
    \<and> low (snd (getTypeBounds ''integer range 0 to 7'' (Some (''0'', ''to'', ''7'')))) = ''''
    \<and> high (snd (getTypeBounds ''integer range 0 to 7'' (Some (''0'', ''to'', ''7'')))) = ''''
    \<and> converter (snd (getTypeBounds ''integer range 0 to 7'' (Some (''0'', ''to'', ''7''))))
         ''i_0'' = ''''
    \<and> fst (getTypeBounds ''integer range 0 to 7'' (Some (''0'', ''to'', ''7'')))
        = [''Unknown type integer range 0 to 7. ignoring it.''])
   \<and> (leading_word ''std_logic_vector'' = Some ''std_logic_vector''
    \<and> low (snd (getTypeBounds ''std_logic_vector'' None)) = ''''
    \<and> high (snd (getTypeBounds ''std_logic_vector'' None)) = ''''
    \<and> converter (snd (getTypeBounds ''std_logic_vector'' None)) ''i_0'' = ''''
    \<and> fst (getTypeBounds ''std_logic_vector'' None)
        = [''Incomplete type std_logic_vector without a range. ignoring it.''])"
proof -
  have w1: "leading_word ''integer range 0 to 7'' = Some ''integer''"
    by (simp add: leading_word_def is_word_def)
  have w2: "leading_word ''std_logic_vector'' = Some ''std_logic_vector''"
    by (simp add: leading_word_def is_word_def)
  show ?thesis
    using getTypeBounds_degrades_softly
            [of "''integer range 0 to 7''" "Some (''0'', ''to'', ''7'')"]
          getTypeBounds_degrades_softly [of "''std_logic_vector''" None]
    by (simp add: w1 w2)
qed

text \<open>
  What the resolver computes when the ascending keyword is spelled \<^verbatim>\<open>to\<close> in lower
  case, the only spelling it compares with: any other keyword text is taken as
  descending.  A range \<open>upper kind lower\<close> with such a keyword and the range
  \<open>lower to upper\<close> then give the same result.  For a vector the width text is that of
  \<open>(upper) - (lower) + 1\<close> and the high bound that of \<open>2 ** width - 1\<close>, so that the domain
  from 0 has \<open>2 ^ width\<close> values; for a one-bit scalar the bounds are 0 and 1, a domain of
  two values.
\<close>

lemma bounds_for_lower_case_to:
  assumes "kind \<noteq> ''to''"
  shows "getTypeBounds ty (Some (upper, kind, lower))
           = getTypeBounds ty (Some (lower, ''to'', upper))
         \<and> (leading_word ty \<in> Some ` {''std_ulogic_vector'', ''std_logic_vector''} \<longrightarrow>
              low (snd (getTypeBounds ty (Some (upper, kind, lower)))) = render (Lit 0)
            \<and> high (snd (getTypeBounds ty (Some (upper, kind, lower))))
                = render (high_expr upper lower)
            \<and> vector_length (upper, kind, lower) = render (length_expr upper lower)
            \<and> eval env (length_expr upper lower) = env upper - env lower + 1
            \<and> domain_size (eval env (Lit 0)) (eval env (high_expr upper lower))
                = 2 ^ nat (env upper - env lower + 1))
         \<and> (leading_word ty \<in> Some ` {''bit'', ''std_logic'', ''std_ulogic''} \<longrightarrow>
              low (snd (getTypeBounds ty rng)) = render (Lit 0)
            \<and> high (snd (getTypeBounds ty rng)) = render (Lit 1)
            \<and> domain_size (eval env (Lit 0)) (eval env (Lit 1)) = 2)"
proof -
  have len: "vector_length (upper, kind, lower) = vector_length (lower, ''to'', upper)"
    using assms by (simp add: vector_length_def)
  have same: "getTypeBounds ty (Some (upper, kind, lower))
                = getTypeBounds ty (Some (lower, ''to'', upper))"
    by (simp add: getTypeBounds_def Let_def len split: option.split)
  have n0: "show_nat 0 = ''0''" and n1: "show_nat (Suc 0) = ''1''" "show_nat 1 = ''1''"
    and n2: "show_nat 2 = ''2''"
    by (simp_all add: show_nat.simps digit_char_def)
  have width: "vector_length (upper, kind, lower) = render (length_expr upper lower)"
    using assms by (simp add: vector_length_def length_expr_def n1)
  have hi: "''2 ** '' @ vector_length (upper, kind, lower) @ '' - 1''
              = render (high_expr upper lower)"
    by (simp add: width high_expr_def n1 n2)
  have val: "eval env (length_expr upper lower) = env upper - env lower + 1"
    by (simp add: length_expr_def)
  have size: "domain_size (eval env (Lit 0)) (eval env (high_expr upper lower))
                = 2 ^ nat (env upper - env lower + 1)"
    by (simp add: domain_size_def high_expr_def val nat_power_eq)
  have vec: "leading_word ty \<in> Some ` {''std_ulogic_vector'', ''std_logic_vector''} \<Longrightarrow>
               low (snd (getTypeBounds ty (Some (upper, kind, lower)))) = render (Lit 0)
             \<and> high (snd (getTypeBounds ty (Some (upper, kind, lower))))
                 = render (high_expr upper lower)"
    using hi by (auto simp: getTypeBounds_def Let_def n0 split: option.split)
  have sca: "leading_word ty \<in> Some ` {''bit'', ''std_logic'', ''std_ulogic''} \<Longrightarrow>
               low (snd (getTypeBounds ty rng)) = render (Lit 0)
             \<and> high (snd (getTypeBounds ty rng)) = render (Lit 1)"
    by (auto simp: getTypeBounds_def Let_def n0 n1 split: option.split)
  have two: "domain_size (eval env (Lit 0)) (eval env (Lit 1)) = 2"
    by (simp add: domain_size_def)
  show ?thesis
    using same vec width val size sca two by blast
qed

text \<open>
  Claim C6 does not hold of the code.  The claim is that the width and the domain do not
  depend on the direction of the range.  The resolver finds the direction by comparing
  the keyword text with \<^verbatim>\<open>to\<close> in lower case, while VHDL keywords may be written in
  any case.  For the ascending range \<^verbatim>\<open>0 TO 7\<close> it takes the bounds as those of a
  descending range: the width text is \<^verbatim>\<open>((0) - (7) + 1)\<close>, of value -6, where
  \<^verbatim>\<open>0 to 7\<close> and \<^verbatim>\<open>7 downto 0\<close> give \<^verbatim>\<open>((7) - (0) + 1)\<close>, of value 8, and a domain of
  256 values.
\<close>

theorem upper_case_to_taken_as_descending:
  "vector_length (''0'', ''TO'', ''7'') = ''((0) - (7) + 1)''
   \<and> vector_length (''0'', ''TO'', ''7'') = render (length_expr ''0'' ''7'')
   \<and> eval (\<lambda>s. int (dec_value s)) (length_expr ''0'' ''7'') = - 6
   \<and> high (snd (getTypeBounds ''std_logic_vector(0 TO 7)'' (Some (''0'', ''TO'', ''7''))))
       = ''2 ** ((0) - (7) + 1) - 1''
   \<and> converter (snd (getTypeBounds ''std_logic_vector(0 TO 7)'' (Some (''0'', ''TO'', ''7''))))
         ''i_0''
       = ''std_logic_vector(to_unsigned(i_0, ((0) - (7) + 1)))''
   \<and> vector_length (''0'', ''to'', ''7'') = ''((7) - (0) + 1)''
   \<and> vector_length (''7'', ''downto'', ''0'') = ''((7) - (0) + 1)''
   \<and> vector_length (''7'', ''downto'', ''0'') = render (length_expr ''7'' ''0'')
   \<and> eval (\<lambda>s. int (dec_value s)) (length_expr ''7'' ''0'') = 8
   \<and> high (snd (getTypeBounds ''std_logic_vector(7 downto 0)''
                  (Some (''7'', ''downto'', ''0''))))
       = ''2 ** ((7) - (0) + 1) - 1''
   \<and> domain_size (eval (\<lambda>s. int (dec_value s)) (Lit 0))
        (eval (\<lambda>s. int (dec_value s)) (high_expr ''7'' ''0'')) = 256"
proof -
  have w1: "leading_word ''std_logic_vector(0 TO 7)'' = Some ''std_logic_vector''"
    and w2: "leading_word ''std_logic_vector(7 downto 0)'' = Some ''std_logic_vector''"
    by (simp_all add: leading_word_def is_word_def)
  have n: "show_nat (Suc 0) = ''1''" "show_nat 2 = ''2''"
    by (simp_all add: show_nat.simps digit_char_def)
  have d: "dec_value ''7'' = 7" "dec_value ''0'' = 0"
    by (simp_all add: dec_value_def digit_value_def)
  have up: "vector_length (''0'', ''TO'', ''7'') = ''((0) - (7) + 1)''"
    and lo: "vector_length (''0'', ''to'', ''7'') = ''((7) - (0) + 1)''"
    and dn: "vector_length (''7'', ''downto'', ''0'') = ''((7) - (0) + 1)''"
    by (simp_all add: vector_length_def)
  have r1: "render (length_expr ''0'' ''7'') = ''((0) - (7) + 1)''"
    and r2: "render (length_expr ''7'' ''0'') = ''((7) - (0) + 1)''"
    by (simp_all add: length_expr_def n)
  have v1: "eval (\<lambda>s. int (dec_value s)) (length_expr ''0'' ''7'') = - 6"
    and v2: "eval (\<lambda>s. int (dec_value s)) (length_expr ''7'' ''0'') = 8"
    by (simp_all add: length_expr_def d)
  have h1: "high (snd (getTypeBounds ''std_logic_vector(0 TO 7)''
                         (Some (''0'', ''TO'', ''7'')))) = ''2 ** ((0) - (7) + 1) - 1''"
    and c1: "converter (snd (getTypeBounds ''std_logic_vector(0 TO 7)''
                              (Some (''0'', ''TO'', ''7'')))) ''i_0''
             = ''std_logic_vector(to_unsigned(i_0, ((0) - (7) + 1)))''"
    by (simp_all add: getTypeBounds_def w1 up)
  have h2: "high (snd (getTypeBounds ''std_logic_vector(7 downto 0)''
                         (Some (''7'', ''downto'', ''0'')))) = ''2 ** ((7) - (0) + 1) - 1''"
    by (simp add: getTypeBounds_def w2 dn)
  have sz: "domain_size (eval (\<lambda>s. int (dec_value s)) (Lit 0))
              (eval (\<lambda>s. int (dec_value s)) (high_expr ''7'' ''0'')) = 256"
    by (simp add: domain_size_def high_expr_def v2)
  show ?thesis
    using up lo dn r1 r2 v1 v2 h1 c1 h2 sz by simp
qed

subsection \<open>Entities and signals that the tables do not hold\<close>

lemma js_get_absent:
  "k \<notin> fst ` set obj \<Longrightarrow> k \<notin> set object_prototype_keys \<Longrightarrow> js_get obj k = Undefined"
  by (simp add: js_get_def map_of_eq_None_iff [THEN iffD2])

lemma first_token_begin: "first_token ''begin'' = Some ''begin''"
  by (simp add: first_token_def is_space_def)

text \<open>
  Claim C10, as amended.  A \<^verbatim>\<open>testbench <name> of <entity> is\<close> directive whose entity
  is absent from the tables, and is not the name of a property that the tables inherit
  from \<^verbatim>\<open>Object.prototype\<close>, is accepted: it creates a state and appends the text
  \<^verbatim>\<open>undefined\<close> where the clauses of the entity would stand.  A \<^verbatim>\<open>begin\<close> directive
  met later with that entity in the state fails with a type error.
\<close>

theorem testbench_of_absent_entity:
  assumes "startsWith text ''testbench ''"
    and "e = nth_or_undefined (filter_Boolean (split (CHR '' '') text)) 3"
    and "e \<notin> fst ` set (entityClauses tabs)"
    and "e \<notin> fst ` set (entityPins tabs)"
    and "e \<notin> set object_prototype_keys"
  shows "directive tabs (state, out) text
           = Inr (Some (fst (testbench_directive tabs text)),
                  out @ ''undefined\<newline>entity ''
                      @ testbench (fst (testbench_directive tabs text))
                      @ '' is end;\<newline>\<newline>'')
         \<and> entity (fst (testbench_directive tabs text)) = e
         \<and> (entity st = e \<longrightarrow> directive tabs (Some st, out') ''begin'' = Inl TypeError)"
proof -
  have tok: "first_token text = Some ''testbench''"
    using assms(1) by (rule startsWith_testbench_token)
  have ent: "entity (fst (testbench_directive tabs text)) = e"
    by (simp add: testbench_directive_def Let_def defaultState_def assms(2))
  have cl: "js_get (entityClauses tabs) e = Undefined"
    using assms(3,5) by (rule js_get_absent)
  have frag: "snd (testbench_directive tabs text)
                = ''undefined\<newline>entity '' @ testbench (fst (testbench_directive tabs text))
                  @ '' is end;\<newline>\<newline>''"
    using cl by (simp add: testbench_directive_def Let_def defaultState_def assms(2)
                   prop_text_def)
  have step: "directive tabs (state, out) text
                = Inr (Some (fst (testbench_directive tabs text)),
                       out @ snd (testbench_directive tabs text))"
    using assms(1) tok by (simp add: directive_def Let_def split: prod.splits)
  have pins: "js_get (entityPins tabs) e = Undefined"
    using assms(4,5) by (rule js_get_absent)
  have "directive tabs (Some st, out') ''begin'' = Inl TypeError" if "entity st = e"
    using that pins first_token_begin
    by (simp add: directive_def Let_def begin_directive_def entries_of_def)
  with step frag ent show ?thesis by simp
qed

theorem testbench_of_absent_entity_witness:
  "startsWith ''testbench tb of fa is'' ''testbench ''
   \<and> ''fa'' = nth_or_undefined (filter_Boolean (split (CHR '' '') ''testbench tb of fa is'')) 3
   \<and> ''fa'' \<notin> fst ` set (entityClauses ha_tables)
   \<and> ''fa'' \<notin> fst ` set (entityPins ha_tables)
   \<and> ''fa'' \<notin> set object_prototype_keys
   \<and> directive ha_tables (None, '''') ''testbench tb of fa is''
       = Inr (Some \<lparr>entity = ''fa'', testbench = ''fa_tb'', sync = ''1 ns'', clock = ''''\<rparr>,
              ''undefined\<newline>entity fa_tb is end;\<newline>\<newline>'')
   \<and> directive ha_tables
         (Some \<lparr>entity = ''fa'', testbench = ''fa_tb'', sync = ''1 ns'', clock = ''''\<rparr>,
          ''undefined\<newline>entity fa_tb is end;\<newline>\<newline>'') ''begin''
       = Inl TypeError"
proof -
  have st: "fst (testbench_directive ha_tables ''testbench tb of fa is'')
              = \<lparr>entity = ''fa'', testbench = ''fa_tb'', sync = ''1 ns'', clock = ''''\<rparr>"
    by (simp add: testbench_directive_def filter_Boolean_def nth_or_undefined_def defaultState_def Let_def)
  have h1: "startsWith ''testbench tb of fa is'' ''testbench ''"
    by (simp add: startsWith_def)
  have h2: "''fa'' = nth_or_undefined
                       (filter_Boolean (split (CHR '' '') ''testbench tb of fa is'')) 3"
    by (simp add: filter_Boolean_def nth_or_undefined_def)
  have h3: "''fa'' \<notin> fst ` set (entityClauses ha_tables)"
    and h4: "''fa'' \<notin> fst ` set (entityPins ha_tables)"
    by (simp_all add: ha_tables_def)
  have h5: "''fa'' \<notin> set object_prototype_keys"
    by (simp add: object_prototype_keys_def)
  note t = testbench_of_absent_entity
         [OF h1 h2 h3 h4 h5, of None "''''"
            "\<lparr>entity = ''fa'', testbench = ''fa_tb'', sync = ''1 ns'', clock = ''''\<rparr>"
            "''undefined\<newline>entity fa_tb is end;\<newline>\<newline>''"]
  have d1: "directive ha_tables (None, '''') ''testbench tb of fa is''
       = Inr (Some \<lparr>entity = ''fa'', testbench = ''fa_tb'', sync = ''1 ns'', clock = ''''\<rparr>,
              ''undefined\<newline>entity fa_tb is end;\<newline>\<newline>'')"
    using t by (simp add: st)
  have d2: "directive ha_tables
         (Some \<lparr>entity = ''fa'', testbench = ''fa_tb'', sync = ''1 ns'', clock = ''''\<rparr>,
          ''undefined\<newline>entity fa_tb is end;\<newline>\<newline>'') ''begin''
       = Inl TypeError"
    using t by simp
  show ?thesis
    using h1 h2 h3 h4 h5 d1 d2 by blast
qed

text \<open>
  The claim C10 as stated fails for an entity name that \<^verbatim>\<open>Object.prototype\<close> defines:
  \<^verbatim>\<open>toString\<close> is in none of the tables, yet the text appended is that of the inherited
  function, and \<^verbatim>\<open>begin\<close> does not fail, since the function has no entries.
\<close>

theorem testbench_of_absent_entity_counterexample:
  "''toString'' \<notin> fst ` set (entityClauses ha_tables)
   \<and> ''toString'' \<notin> fst ` set (entityPins ha_tables)
   \<and> ''toString'' \<notin> fst ` set (entityHeads ha_tables)
   \<and> second_pass ha_tables (None, '''') [Some ''testbench tb of toString is'']
       = Inr (Some \<lparr>entity = ''toString'', testbench = ''toString_tb'', sync = ''1 ns'',
                    clock = ''''\<rparr>,
              ''function toString() { [native code] }\<newline>entity toString_tb is end;\<newline>\<newline>'')
   \<and> second_pass ha_tables (None, '''') [Some ''testbench tb of toString is'', Some ''begin'']
       = Inr (Some \<lparr>entity = ''toString'', testbench = ''toString_tb'', sync = ''1 ns'',
                    clock = ''''\<rparr>,
              ''function toString() { [native code] }\<newline>entity toString_tb is end;\<newline>\<newline>''
              @ ''architecture tb of toString_tb is\<newline>''
              @ ''component toString function toString() { [native code] }\<newline>''
              @ ''end component;\<newline>\<newline>''
              @ ''signal tb_done : bit := '' @ [CHR 0x27] @ ''0'' @ [CHR 0x27] @ '';\<newline>''
              @ ''begin\<newline>''
              @ ''dut : toString port map();\<newline>\<newline>''
              @ ''process\<newline>begin\<newline>'')"
proof -
  have tb: "directive ha_tables (None, '''') ''testbench tb of toString is''
              = Inr (Some \<lparr>entity = ''toString'', testbench = ''toString_tb'', sync = ''1 ns'',
                           clock = ''''\<rparr>,
                     ''function toString() { [native code] }\<newline>entity toString_tb is end;\<newline>\<newline>'')"
    by (simp add: directive_def startsWith_def first_token_def is_space_def
          testbench_directive_def filter_Boolean_def nth_or_undefined_def defaultState_def Let_def
          js_get_def ha_tables_def object_prototype_keys_def prop_text_def inherited_text_def)
  have bg: "begin_directive ha_tables
              \<lparr>entity = ''toString'', testbench = ''toString_tb'', sync = ''1 ns'', clock = ''''\<rparr>
            = Inr (''architecture tb of toString_tb is\<newline>''
              @ ''component toString function toString() { [native code] }\<newline>''
              @ ''end component;\<newline>\<newline>''
              @ ''signal tb_done : bit := '' @ [CHR 0x27] @ ''0'' @ [CHR 0x27] @ '';\<newline>''
              @ ''begin\<newline>''
              @ ''dut : toString port map();\<newline>\<newline>''
              @ ''process\<newline>begin\<newline>'')"
    by (simp add: begin_directive_def entries_of_def js_get_def ha_tables_def
          object_prototype_keys_def prop_text_def inherited_text_def signal_declarations_def
          port_map_def)
  have trims: "trim ''testbench tb of toString is'' = ''testbench tb of toString is''"
    "trim ''begin'' = ''begin''"
    by (simp_all add: trim_defs)
  show ?thesis
    using tb bg first_token_begin
    by (simp add: line_comment_def trims directive_def Let_def ha_tables_def)
qed

subsection \<open>Unknown signals in every\<close>

lemma sequence_map_Inr: "sequence (map (\<lambda>x. Inr (f x)) xs) = Inr (map f xs)"
  by (induction xs) simp_all

lemma every_loop_None: "every_loop (i, name, None) = Inl TypeError"
  by (simp add: every_loop_def)

lemma every_loop_Some:
  "every_loop (i, name, Some n)
     = Inr (''for i_'' @ show_nat i @ '' in '' @ low n @ '' to '' @ high n @ '' loop\<newline>''
            @ name @ '' <= '' @ converter n (''i_'' @ show_nat i) @ '';\<newline>'')"
  by (simp add: every_loop_def)

lemma every_loops_fail:
  "(name, None) \<in> set names \<Longrightarrow>
     sequence (map every_loop (enumerate k names)) = Inl TypeError"
proof (induction names arbitrary: k)
  case Nil
  then show ?case by simp
next
  case (Cons x names)
  obtain n info where x: "x = (n, info)" by (cases x)
  show ?case
  proof (cases info)
    case None
    then show ?thesis by (simp add: x every_loop_None)
  next
    case (Some i)
    with Cons.prems x have "(name, None) \<in> set names" by auto
    then have "sequence (map every_loop (enumerate (Suc k) names)) = Inl TypeError"
      by (rule Cons.IH)
    then show ?thesis by (simp add: x Some every_loop_Some)
  qed
qed

lemma match_every_token:
  assumes "match_every text = Some x"
  shows "first_token text = Some ''every''"
proof -
  from assms obtain r where "text = ''every ('' @ r"
    by (auto simp: match_every_def strip_prefix_Some split: option.splits)
  then show ?thesis by (simp add: first_token_def is_space_def)
qed

text \<open>
  Claim C2, as amended.  An \<^verbatim>\<open>every\<close> directive whose explicit signal list holds a name
  that is not a port of the active entity fails with a type error, raised by the call of
  the converter the name does not have; nothing is emitted for the directive.
\<close>

theorem every_unknown_signal_fails:
  assumes "match_every text = Some x"
    and "js_get (entityPins tabs) (entity st) = Own ps"
    and "n \<in> set (map trim (filter_Boolean (split (CHR '','') x)))"
    and "n \<notin> fst ` set ps"
  shows "directive tabs (Some st, out) text = Inl TypeError"
proof -
  let ?l = "map trim (filter_Boolean (split (CHR '','') x))"
  let ?f = "\<lambda>name. (name, case js_get ps name of Own info \<Rightarrow> Some info
                                | Inherited k \<Rightarrow> None | Undefined \<Rightarrow> None)"
  have l: "every_list (Own ps) text = Inr ?l"
    using assms(1) by (simp add: every_list_def)
  have "every_name (Own ps) = (\<lambda>name. Inr (?f name))"
    by (auto simp: every_name_def fun_eq_iff split: js_prop.splits)
  then have names: "sequence (map (every_name (Own ps)) ?l) = Inr (map ?f ?l)"
    by (simp only: sequence_map_Inr)
  have "map_of ps n = None"
    using assms(4) by (simp add: map_of_eq_None_iff)
  then have "?f n = (n, None)"
    by (simp add: js_get_def)
  with assms(3) have "(n, None) \<in> set (map ?f ?l)"
    by (metis (no_types, lifting) image_eqI list.set_map)
  then have "sequence (map every_loop (enumerate 0 (map ?f ?l))) = Inl TypeError"
    by (rule every_loops_fail)
  with l names have "every_directive tabs st text = Inl TypeError"
    by (simp add: every_directive_def assms(2))
  then show ?thesis
    using match_every_token [OF assms(1)] by (simp add: directive_def Let_def)
qed

theorem every_unknown_signal_fails_witness:
  "match_every ''every (a, zz);'' = Some ''a, zz''
   \<and> js_get (entityPins ha_tables) (entity ha_state) = Own ha_pins
   \<and> ''zz'' \<in> set (map trim (filter_Boolean (split (CHR '','') ''a, zz'')))
   \<and> ''zz'' \<notin> fst ` set ha_pins
   \<and> directive ha_tables (Some ha_state, ''x'') ''every (a, zz);'' = Inl TypeError"
proof -
  have m: "match_every ''every (a, zz);'' = Some ''a, zz''"
    by (simp add: match_every_def)
  have p: "js_get (entityPins ha_tables) (entity ha_state) = Own ha_pins"
    by (simp add: js_get_def ha_tables_def ha_state_def)
  have l: "''zz'' \<in> set (map trim (filter_Boolean (split (CHR '','') ''a, zz'')))"
    by (simp add: filter_Boolean_def trim_defs)
  have a: "''zz'' \<notin> fst ` set ha_pins"
    by (simp add: ha_pins_def)
  from every_unknown_signal_fails [OF m p l a, of "''x''"] m p l a show ?thesis by simp
qed

text \<open>
  The claim C2 as stated fails: with the ports \<open>a\<close>, \<open>b\<close>, \<open>s\<close> and \<open>co\<close>, the directive
  \<^verbatim>\<open>every (a, zz);\<close> ends the run with a type error.
\<close>

theorem every_unknown_signal_proceeds_counterexample:
  "second_pass ha_tables (None, '''')
     [Some ''testbench tb of ha is'', Some ''begin'', Some ''every (a, zz);'']
   = Inl TypeError"
proof -
  have tb: "directive ha_tables (None, '''') ''testbench tb of ha is''
              = Inr (Some \<lparr>entity = ''ha'', testbench = ''ha_tb'', sync = ''1 ns'', clock = ''''\<rparr>,
                     ''library ieee;\<newline>use ieee.std_logic_1164.all;\<newline>\<newline>entity ha_tb is end;\<newline>\<newline>'')"
    by (simp add: directive_def startsWith_def first_token_def is_space_def
          testbench_directive_def filter_Boolean_def nth_or_undefined_def defaultState_def Let_def
          js_get_def ha_tables_def prop_text_def)
  have pins: "js_get (entityPins ha_tables) ''ha'' = Own ha_pins"
    by (simp add: js_get_def ha_tables_def)
  have "\<exists>frag. begin_directive ha_tables
            \<lparr>entity = ''ha'', testbench = ''ha_tb'', sync = ''1 ns'', clock = ''''\<rparr> = Inr frag"
    by (simp add: begin_directive_def entries_of_def pins)
  then obtain frag where bg: "begin_directive ha_tables
            \<lparr>entity = ''ha'', testbench = ''ha_tb'', sync = ''1 ns'', clock = ''''\<rparr> = Inr frag"
    by blast
  have names: "every_list (Own ha_pins) ''every (a, zz);'' = Inr [''a'', ''zz'']"
    by (simp add: every_list_def match_every_def filter_Boolean_def trim_defs)
  have ev: "every_directive ha_tables
              \<lparr>entity = ''ha'', testbench = ''ha_tb'', sync = ''1 ns'', clock = ''''\<rparr>
              ''every (a, zz);'' = Inl TypeError"
  proof -
    have a: "every_name (Own ha_pins) ''a'' = Inr (''a'', Some (std_logic_port ''in''))"
      by (simp add: every_name_def js_get_def ha_pins_def)
    have z: "every_name (Own ha_pins) ''zz'' = Inr (''zz'', None)"
      by (simp add: every_name_def js_get_def ha_pins_def object_prototype_keys_def)
    show ?thesis
      by (simp add: every_directive_def pins names a z every_loop_None every_loop_Some)
  qed
  have toks2: "first_token ''every (a, zz);'' = Some ''every''"
    by (simp add: first_token_def is_space_def)
  have trims: "trim ''testbench tb of ha is'' = ''testbench tb of ha is''"
    "trim ''begin'' = ''begin''" "trim ''every (a, zz);'' = ''every (a, zz);''"
    by (simp_all add: trim_defs)
  have s2: "directive ha_tables
              (Some \<lparr>entity = ''ha'', testbench = ''ha_tb'', sync = ''1 ns'', clock = ''''\<rparr>, out)
              ''begin''
            = Inr (Some \<lparr>entity = ''ha'', testbench = ''ha_tb'', sync = ''1 ns'', clock = ''''\<rparr>,
                   out @ frag)" for out
    using bg first_token_begin by (simp add: directive_def Let_def)
  have s3: "directive ha_tables
              (Some \<lparr>entity = ''ha'', testbench = ''ha_tb'', sync = ''1 ns'', clock = ''''\<rparr>, out)
              ''every (a, zz);'' = Inl TypeError" for out
    using ev toks2 by (simp add: directive_def Let_def)
  show ?thesis
    by (simp add: line_comment_def trims tb s2 s3)
qed

subsection \<open>The output composer\<close>

lemma triple_free_Cons_other: "c \<noteq> CHR 0x0A \<Longrightarrow> triple_free (c # s) = triple_free s"
proof (cases s)
  case Nil
  then show ?thesis by simp
next
  case (Cons b s')
  assume c: "c \<noteq> CHR 0x0A"
  show ?thesis
  proof (cases s')
    case Nil
    with Cons show ?thesis by simp
  next
    case (Cons d s'')
    with \<open>s = b # s'\<close> c show ?thesis by simp
  qed
qed

lemma triple_free_tl: "triple_free (c # s) \<Longrightarrow> triple_free s"
  by (cases "(c # s)" rule: triple_free.cases) auto

lemma triple_free_append_right: "triple_free (xs @ ys) \<Longrightarrow> triple_free ys"
  by (induction xs) (auto dest: triple_free_tl)

lemma triple_free_append_left: "triple_free (xs @ ys) \<Longrightarrow> triple_free xs"
  by (induction xs rule: triple_free.induct) auto

lemma triple_free_breaks_then_other:
  assumes "y = [] \<or> hd y \<noteq> CHR 0x0A" and "triple_free y" and "n \<le> 2"
  shows "triple_free (replicate n (CHR 0x0A) @ y)"
proof -
  have n: "n = 0 \<or> n = 1 \<or> n = 2" using assms(3) by arith
  show ?thesis
  proof (cases y)
    case Nil
    with n show ?thesis by (auto simp: numeral_2_eq_2)
  next
    case (Cons d ys)
    with assms(1) have d: "d \<noteq> CHR 0x0A" by simp
    have "triple_free (CHR 0x0A # d # ys)"
      using d assms(2) Cons by (cases ys) auto
    with n d assms(2) Cons show ?thesis by (auto simp: numeral_2_eq_2)
  qed
qed

lemma breaks_of_triple_free:
  "triple_free (replicate n (CHR 0x0A) @ y) \<Longrightarrow> n \<le> 2"
proof (rule ccontr)
  assume tf: "triple_free (replicate n (CHR 0x0A) @ y)" and "\<not> n \<le> 2"
  then have "3 \<le> n" by simp
  then obtain m where "n = 3 + m" using le_Suc_ex by blast
  then have "n = Suc (Suc (Suc m))" by simp
  with tf show False by simp
qed

lemma takeWhile_breaks:
  "takeWhile (\<lambda>x. x = a) s = replicate (length (takeWhile (\<lambda>x. x = a) s)) a"
  by (induction s) auto

lemma collapse_starts_other:
  "s = [] \<or> hd s \<noteq> CHR 0x0A \<Longrightarrow> collapse s = [] \<or> hd (collapse s) \<noteq> CHR 0x0A"
  by (cases s) auto

lemma dropWhile_starts_other:
  "dropWhile (\<lambda>x. x = a) s = [] \<or> hd (dropWhile (\<lambda>x. x = a) s) \<noteq> a"
  using hd_dropWhile [of "\<lambda>x. x = a" s] by blast

lemma triple_free_collapse: "triple_free (collapse s)"
proof (induction s rule: collapse.induct)
  case 1
  show ?case by simp
next
  case (2 c cs)
  show ?case
  proof (cases "c = CHR 0x0A")
    case False
    with 2 show ?thesis by (simp add: triple_free_Cons_other)
  next
    case True
    let ?run = "takeWhile (\<lambda>x. x = CHR 0x0A) (c # cs)"
    let ?rest = "dropWhile (\<lambda>x. x = CHR 0x0A) (c # cs)"
    let ?n = "if 3 \<le> length ?run then 2 else length ?run"
    have run: "(if 3 \<le> length ?run then ''\<newline>\<newline>'' else ?run) = replicate ?n (CHR 0x0A)"
    proof (cases "3 \<le> length ?run")
      case True
      then show ?thesis by (simp add: numeral_2_eq_2)
    next
      case False
      have "?run = replicate (length ?run) (CHR 0x0A)" by (rule takeWhile_breaks)
      with False show ?thesis by (simp only: if_False)
    qed
    have step: "collapse (c # cs)
                  = (if 3 \<le> length ?run then ''\<newline>\<newline>'' else ?run) @ collapse ?rest"
      using True by (simp add: Let_def del: takeWhile.simps dropWhile.simps)
    have eq: "collapse (c # cs) = replicate ?n (CHR 0x0A) @ collapse ?rest"
      by (simp only: step run)
    have "triple_free (collapse ?rest)"
      using 2(1) True by simp
    moreover have "collapse ?rest = [] \<or> hd (collapse ?rest) \<noteq> CHR 0x0A"
      by (rule collapse_starts_other) (rule dropWhile_starts_other)
    moreover have "?n \<le> 2" by simp
    ultimately show ?thesis
      unfolding eq by (intro triple_free_breaks_then_other)
  qed
qed

lemma collapse_triple_free: "triple_free s \<Longrightarrow> collapse s = s"
proof (induction s rule: collapse.induct)
  case 1
  show ?case by simp
next
  case (2 c cs)
  show ?case
  proof (cases "c = CHR 0x0A")
    case False
    with 2 show ?thesis by (simp add: triple_free_Cons_other)
  next
    case True
    let ?run = "takeWhile (\<lambda>x. x = CHR 0x0A) (c # cs)"
    let ?rest = "dropWhile (\<lambda>x. x = CHR 0x0A) (c # cs)"
    have split: "c # cs = ?run @ ?rest" by (simp del: takeWhile.simps dropWhile.simps)
    have tf: "triple_free (?run @ ?rest)"
      using "2.prems" split by simp
    then have "triple_free ?rest" by (rule triple_free_append_right)
    with 2(1) True have rest: "collapse ?rest = ?rest" by simp
    have "triple_free (replicate (length ?run) (CHR 0x0A) @ ?rest)"
      using tf takeWhile_breaks [of "CHR 0x0A" "c # cs"] by simp
    then have "length ?run \<le> 2" by (rule breaks_of_triple_free)
    then have "\<not> 3 \<le> length ?run" by simp
    then have "collapse (c # cs) = ?run @ collapse ?rest"
      using True by (simp add: Let_def del: takeWhile.simps dropWhile.simps)
    with rest split show ?thesis by simp
  qed
qed

lemma trim_end_decompose: "u = trim_end u @ rev (takeWhile is_space (rev u))"
proof -
  have "trim_end u @ rev (takeWhile is_space (rev u))
          = rev (takeWhile is_space (rev u) @ dropWhile is_space (rev u))"
    by (simp only: trim_end_def rev_append)
  also have "\<dots> = rev (rev u)" by (simp only: takeWhile_dropWhile_id)
  finally show ?thesis by simp
qed

lemma trim_decompose:
  "s = takeWhile is_space s @ trim s @ rev (takeWhile is_space (rev (trim_start s)))"
proof -
  have "s = takeWhile is_space s @ trim_start s" by (simp add: trim_start_def)
  moreover have "trim_start s = trim s @ rev (takeWhile is_space (rev (trim_start s)))"
    unfolding trim_def by (rule trim_end_decompose)
  ultimately show ?thesis by simp
qed

lemma triple_free_trim: "triple_free s \<Longrightarrow> triple_free (trim s)"
proof -
  assume "triple_free s"
  then have "triple_free (takeWhile is_space s
               @ (trim s @ rev (takeWhile is_space (rev (trim_start s)))))"
    using trim_decompose [of s] by simp
  then have "triple_free (trim s @ rev (takeWhile is_space (rev (trim_start s))))"
    by (rule triple_free_append_right)
  then show ?thesis by (rule triple_free_append_left)
qed

lemma trimmed_trim: "trimmed (trim s)"
proof (cases "trim s = []")
  case True
  then show ?thesis by (simp add: trimmed_def)
next
  case False
  let ?u = "trim_start s"
  have t: "trim s = rev (dropWhile is_space (rev ?u))"
    by (simp add: trim_def trim_end_def)
  with False have ne: "dropWhile is_space (rev ?u) \<noteq> []" by simp
  then have "\<not> is_space (hd (dropWhile is_space (rev ?u)))" by (rule hd_dropWhile)
  then have last: "\<not> is_space (last (trim s))"
    using ne by (simp add: t last_rev)
  have u: "?u = trim s @ rev (takeWhile is_space (rev ?u))"
    unfolding trim_def by (rule trim_end_decompose)
  with False have "?u \<noteq> []" by auto
  then have "\<not> is_space (hd ?u)"
    unfolding trim_start_def by (rule hd_dropWhile)
  moreover have "hd ?u = hd (trim s)"
    using False u by (metis hd_append2)
  ultimately show ?thesis using last by (simp add: trimmed_def)
qed

lemma trim_trimmed_break:
  assumes "trimmed t"
  shows "trim (t @ ''\<newline>'') = t"
proof (cases "t = []")
  case True
  then show ?thesis by (simp add: trim_defs)
next
  case False
  with assms have h: "\<not> is_space (hd t)" and l: "\<not> is_space (last t)"
    by (simp_all add: trimmed_def)
  from False h have "dropWhile is_space (t @ ''\<newline>'') = t @ ''\<newline>''"
    by (cases t) simp_all
  then have "trim (t @ ''\<newline>'') = rev (dropWhile is_space (CHR 0x0A # rev t))"
    by (simp add: trim_def trim_start_def trim_end_def)
  also have "\<dots> = rev (dropWhile is_space (rev t))"
    by (simp add: is_space_def)
  also have "dropWhile is_space (rev t) = rev t"
    using False l by (cases "rev t") (auto simp: last_rev hd_rev)
  finally show ?thesis by simp
qed

lemma triple_free_snoc_break:
  "triple_free t \<Longrightarrow> t = [] \<or> last t \<noteq> CHR 0x0A \<Longrightarrow> triple_free (t @ ''\<newline>'')"
  by (induction t rule: triple_free.induct) (auto split: if_splits)

text \<open>
  Claim C9.  The composer applied to its own result gives that result again, for every
  output buffer.
\<close>

theorem compose_idempotent: "compose (compose out) = compose out"
proof -
  let ?t = "trim (collapse out)"
  have tf: "triple_free ?t"
    by (rule triple_free_trim) (rule triple_free_collapse)
  have tr: "trimmed ?t" by (rule trimmed_trim)
  then have "?t = [] \<or> last ?t \<noteq> CHR 0x0A"
    by (auto simp: trimmed_def is_space_def)
  with tf have "triple_free (?t @ ''\<newline>'')" by (rule triple_free_snoc_break)
  then have "collapse (?t @ ''\<newline>'') = ?t @ ''\<newline>''" by (rule collapse_triple_free)
  moreover have "trim (?t @ ''\<newline>'') = ?t" using tr by (rule trim_trimmed_break)
  ultimately show ?thesis by (simp add: compose_def)
qed

subsection \<open>The order of the ports\<close>

lemma set_first_seen: "set (first_seen xs) = set xs"
  by (induction xs) auto

lemma first_seen_append:
  "first_seen (xs @ ys) = first_seen xs @ filter (\<lambda>y. y \<notin> set xs) (first_seen ys)"
proof (induction xs)
  case Nil
  show ?case by simp
next
  case (Cons x xs)
  have "filter (\<lambda>y. y \<noteq> x) (filter (\<lambda>y. y \<notin> set xs) (first_seen ys))
          = filter (\<lambda>y. y \<notin> set (x # xs)) (first_seen ys)"
    by (auto intro: filter_cong)
  with Cons show ?case by simp
qed

lemma keys_js_set:
  "k \<noteq> ''__proto__'' \<Longrightarrow>
     map fst (js_set obj k v) = (if k \<in> set (map fst obj) then map fst obj else map fst obj @ [k])"
  by (induction obj) (auto simp: js_set_def)

lemma keys_foldl_js_set:
  assumes "\<forall>i \<in> set ids. g i \<noteq> ''__proto__''"
  shows "map fst (foldl (\<lambda>obj i. js_set obj (g i) v) obj ids)
           = map fst obj @ filter (\<lambda>k. k \<notin> set (map fst obj)) (first_seen (map g ids))"
  using assms
proof (induction ids arbitrary: obj)
  case Nil
  show ?case by simp
next
  case (Cons i ids)
  let ?obj = "js_set obj (g i) v"
  let ?fs = "first_seen (map g ids)"
  from Cons.prems have gi: "g i \<noteq> ''__proto__''" and rest: "\<forall>i \<in> set ids. g i \<noteq> ''__proto__''"
    by simp_all
  have IH: "map fst (foldl (\<lambda>obj i. js_set obj (g i) v) ?obj ids)
              = map fst ?obj @ filter (\<lambda>k. k \<notin> set (map fst ?obj)) ?fs"
    using rest by (rule Cons.IH)
  show ?case
  proof (cases "g i \<in> set (map fst obj)")
    case True
    then have keys: "map fst ?obj = map fst obj" using gi by (simp add: keys_js_set)
    have "filter (\<lambda>k. k \<notin> set (map fst obj)) (filter (\<lambda>y. y \<noteq> g i) ?fs)
            = filter (\<lambda>k. k \<notin> set (map fst obj)) ?fs"
      using True by (auto simp: filter_filter intro!: filter_cong)
    with IH keys True show ?thesis by simp
  next
    case False
    then have keys: "map fst ?obj = map fst obj @ [g i]" using gi by (simp add: keys_js_set)
    have "filter (\<lambda>k. k \<notin> set (map fst obj @ [g i])) ?fs
            = filter (\<lambda>k. k \<notin> set (map fst obj)) (filter (\<lambda>y. y \<noteq> g i) ?fs)"
      by (auto simp: filter_filter intro!: filter_cong)
    with IH keys False show ?thesis by simp
  qed
qed

lemma keys_add_interface:
  assumes "add_interface ps decl = Inr ps'"
    and "\<forall>n \<in> set (identifiers decl). trim n \<noteq> ''__proto__''"
  shows "map fst ps' = map fst ps
           @ filter (\<lambda>k. k \<notin> set (map fst ps)) (first_seen (map trim (identifiers decl)))"
proof -
  let ?b = "snd (getTypeBounds (type_text decl) (simple_range decl))"
  let ?v = "\<lparr>low = low ?b, high = high ?b, converter = converter ?b,
             mode = mode_text decl, type = type_text decl\<rparr>"
  from assms(1) have "ps' = foldl (\<lambda>ps port. js_set ps (trim port) ?v) ps (identifiers decl)"
    by (simp add: add_interface_def Let_def split: if_splits)
  then show ?thesis
    using keys_foldl_js_set [of "identifiers decl" trim ?v ps, OF assms(2)] by simp
qed

lemma keys_add_interfaces:
  assumes "add_interfaces ps decls = Inr ps'"
    and "\<forall>n \<in> set (concat (map identifiers decls)). trim n \<noteq> ''__proto__''"
  shows "map fst ps' = map fst ps
           @ filter (\<lambda>k. k \<notin> set (map fst ps))
               (first_seen (map trim (concat (map identifiers decls))))"
  using assms
proof (induction decls arbitrary: ps)
  case Nil
  then show ?case by simp
next
  case (Cons decl decls)
  from Cons.prems(1) obtain ps1 where one: "add_interface ps decl = Inr ps1"
    and more: "add_interfaces ps1 decls = Inr ps'"
    by (auto split: sum.splits)
  let ?xs = "map trim (identifiers decl)"
  let ?ys = "map trim (concat (map identifiers decls))"
  let ?K = "set (map fst ps)"
  have k1: "map fst ps1 = map fst ps @ filter (\<lambda>k. k \<notin> ?K) (first_seen ?xs)"
    using one Cons.prems(2) by (intro keys_add_interface) auto
  have k2: "map fst ps' = map fst ps1
              @ filter (\<lambda>k. k \<notin> set (map fst ps1)) (first_seen ?ys)"
    using more Cons.prems(2) by (intro Cons.IH) auto
  have s1: "set (map fst ps1) = ?K \<union> set ?xs"
    unfolding k1 using set_first_seen [of ?xs] by auto
  have "filter (\<lambda>k. k \<notin> set (map fst ps1)) (first_seen ?ys)
          = filter (\<lambda>k. k \<notin> ?K) (filter (\<lambda>y. y \<notin> set ?xs) (first_seen ?ys))"
    unfolding s1 by (auto simp: filter_filter intro!: filter_cong)
  with k1 k2 show ?case
    by (simp add: first_seen_append del: set_map)
qed

lemma own_entries_plain:
  assumes "\<forall>k \<in> set (map fst obj). \<not> is_array_index k"
  shows "own_entries obj = obj"
proof -
  have "filter (\<lambda>e. is_array_index (fst e)) obj = []"
    using assms by (auto simp: filter_empty_conv)
  moreover have "filter (\<lambda>e. \<not> is_array_index (fst e)) obj = obj"
    using assms by (auto simp: filter_id_conv)
  ultimately show ?thesis by (simp add: own_entries_def)
qed

lemma join_Cons: "join sep (x # xs) = x @ concat (map (\<lambda>y. sep @ y) xs)"
  by (induction xs arbitrary: x) simp_all

lemma port_map_tail:
  "0 < k \<Longrightarrow>
     concat (map (\<lambda>(i, pin). (if i = 0 then '''' else '', '') @ pin @ '' => '' @ pin)
               (enumerate k ks))
     = concat (map (\<lambda>y. '', '' @ y) (map (\<lambda>p. p @ '' => '' @ p) ks))"
  by (induction ks arbitrary: k) simp_all

lemma port_map_join: "port_map ks = join '', '' (map (\<lambda>p. p @ '' => '' @ p) ks)"
proof (cases ks)
  case Nil
  then show ?thesis by (simp add: port_map_def)
next
  case (Cons p ps)
  have "port_map (p # ps)
          = (p @ '' => '' @ p)
            @ concat (map (\<lambda>(i, pin). (if i = 0 then '''' else '', '') @ pin @ '' => '' @ pin)
                        (enumerate (Suc 0) ps))"
    by (simp add: port_map_def)
  also have "\<dots> = (p @ '' => '' @ p)
                     @ concat (map (\<lambda>y. '', '' @ y) (map (\<lambda>p. p @ '' => '' @ p) ps))"
    using port_map_tail [of "Suc 0" ps] by simp
  finally show ?thesis by (simp add: Cons join_Cons)
qed

text \<open>
  Claim C8 does not hold of the code for every entity.  The pins of an entity are the
  object that \<^verbatim>\<open>entityPins[name] ||= {}\<close> leaves in place: a plain object, unless the table
  inherits the name from \<^verbatim>\<open>Object.prototype\<close>.  For an entity named after an inherited
  method, such as \<^verbatim>\<open>valueOf\<close>, that object is the method itself and the ports become
  properties of the function; the assignment of a port named \<^verbatim>\<open>length\<close> or \<^verbatim>\<open>name\<close> is
  ignored there, these properties of a function being not writable, and the port is
  missing from the entries that \<^verbatim>\<open>begin\<close> iterates over.

  The model of the pins covers the plain objects, and for them the order is kept, as the
  following lemma states.  When the interface loop ends without the assertion
  failing, the pins hold the port names in the order of their first occurrence in the
  source, the names of a comma-joined group from left to right.  \<^verbatim>\<open>begin\<close> iterates over
  the pins in that order, for the signal declarations and for the port map alike, and the
  port map it emits is the list of the associations \<^verbatim>\<open>p => p\<close> in that order, joined by
  commas.  The port names are identifiers: none is an integer index or \<^verbatim>\<open>__proto__\<close>.
\<close>

lemma ports_in_declaration_order:
  assumes "add_interfaces [] decls = Inr ps"
    and "\<forall>n \<in> set (concat (map identifiers decls)). plain_key (trim n)"
  shows "map fst ps = first_seen (map trim (concat (map identifiers decls)))
         \<and> entries_of (Own ps) = Inr ps
         \<and> own_keys ps = first_seen (map trim (concat (map identifiers decls)))
         \<and> port_map (map fst ps)
             = join '', '' (map (\<lambda>p. p @ '' => '' @ p)
                              (first_seen (map trim (concat (map identifiers decls)))))
         \<and> (js_get (entityPins tabs) (entity st) = Own ps \<longrightarrow>
              begin_directive tabs st
                = Inr (''architecture tb of '' @ testbench st @ '' is\<newline>''
                       @ ''component '' @ entity st @ '' ''
                       @ prop_text (js_get (entityHeads tabs) (entity st)) @ ''\<newline>''
                       @ ''end component;\<newline>\<newline>''
                       @ concat (map (\<lambda>e. ''signal '' @ fst e @ '' : '' @ type (snd e)
                                       @ (if fst e = clock st
                                          then '' := '' @ [CHR 0x27] @ ''0'' @ [CHR 0x27]
                                          else '''')
                                       @ '';\<newline>'') ps)
                       @ ''signal tb_done : bit := '' @ [CHR 0x27] @ ''0'' @ [CHR 0x27]
                       @ '';\<newline>''
                       @ ''begin\<newline>''
                       @ ''dut : '' @ entity st @ '' port map(''
                       @ join '', '' (map (\<lambda>p. p @ '' => '' @ p)
                           (first_seen (map trim (concat (map identifiers decls)))))
                       @ '');\<newline>\<newline>''
                       @ (if clock st \<noteq> '''' then
                            clock st @ '' <= not '' @ clock st @ '' after 0.5 * '' @ sync st
                            @ '' when tb_done = '' @ [CHR 0x27] @ ''0'' @ [CHR 0x27]
                            @ '' else '' @ [CHR 0x27] @ ''0'' @ [CHR 0x27] @ '';\<newline>\<newline>''
                          else '''')
                       @ ''process\<newline>begin\<newline>''))"
proof -
  let ?names = "map trim (concat (map identifiers decls))"
  have "\<forall>n \<in> set (concat (map identifiers decls)). trim n \<noteq> ''__proto__''"
    using assms(2) by (simp add: plain_key_def)
  with assms(1) have keys: "map fst ps = first_seen ?names"
    using keys_add_interfaces [of "[]" decls ps] by simp
  have "\<forall>k \<in> set (map fst ps). \<not> is_array_index k"
    unfolding keys set_first_seen using assms(2) by (auto simp: plain_key_def)
  then have own: "own_entries ps = ps" by (rule own_entries_plain)
  have ent: "entries_of (Own ps) = Inr ps"
    using own by (simp add: entries_of_def)
  have pm: "port_map (map fst ps) = join '', '' (map (\<lambda>p. p @ '' => '' @ p) (first_seen ?names))"
    by (simp only: port_map_join keys)
  have bg: "begin_directive tabs st
              = Inr (''architecture tb of '' @ testbench st @ '' is\<newline>''
                       @ ''component '' @ entity st @ '' ''
                       @ prop_text (js_get (entityHeads tabs) (entity st)) @ ''\<newline>''
                       @ ''end component;\<newline>\<newline>''
                       @ concat (map (\<lambda>e. ''signal '' @ fst e @ '' : '' @ type (snd e)
                                       @ (if fst e = clock st
                                          then '' := '' @ [CHR 0x27] @ ''0'' @ [CHR 0x27]
                                          else '''')
                                       @ '';\<newline>'') ps)
                       @ ''signal tb_done : bit := '' @ [CHR 0x27] @ ''0'' @ [CHR 0x27]
                       @ '';\<newline>''
                       @ ''begin\<newline>''
                       @ ''dut : '' @ entity st @ '' port map(''
                       @ join '', '' (map (\<lambda>p. p @ '' => '' @ p) (first_seen ?names))
                       @ '');\<newline>\<newline>''
                       @ (if clock st \<noteq> '''' then
                            clock st @ '' <= not '' @ clock st @ '' after 0.5 * '' @ sync st
                            @ '' when tb_done = '' @ [CHR 0x27] @ ''0'' @ [CHR 0x27]
                            @ '' else '' @ [CHR 0x27] @ ''0'' @ [CHR 0x27] @ '';\<newline>\<newline>''
                          else '''')
                       @ ''process\<newline>begin\<newline>'')"
    if "js_get (entityPins tabs) (entity st) = Own ps"
    using that ent pm by (simp add: begin_directive_def signal_declarations_def)
  show ?thesis
    using keys ent pm bg by (simp add: own_keys_def own)
qed

lemma ha_interfaces_pins: "add_interfaces [] ha_interfaces = Inr ha_pins"
  by (simp add: ha_interfaces_def ha_pins_def add_interface_def getTypeBounds_def
        leading_word_def is_word_def js_set_def trim_defs std_logic_port_def Let_def)

lemma ports_in_declaration_order_ha:
  "add_interfaces [] ha_interfaces = Inr ha_pins
   \<and> list_all (\<lambda>n. plain_key (trim n)) (concat (map identifiers ha_interfaces))
   \<and> map fst ha_pins = [''a'', ''b'', ''s'', ''co'']
   \<and> entries_of (Own ha_pins) = Inr ha_pins
   \<and> own_keys ha_pins = [''a'', ''b'', ''s'', ''co'']
   \<and> port_map (map fst ha_pins) = ''a => a, b => b, s => s, co => co''
   \<and> js_get (entityPins ha_tables) (entity ha_state) = Own ha_pins
   \<and> begin_directive ha_tables ha_state
       = Inr (''architecture tb of ha_tb is\<newline>''
              @ ''component ha is port (a, b : in std_logic; s, co : out std_logic);\<newline>''
              @ ''end component;\<newline>\<newline>''
              @ ''signal a : std_logic;\<newline>''
              @ ''signal b : std_logic;\<newline>''
              @ ''signal s : std_logic;\<newline>''
              @ ''signal co : std_logic;\<newline>''
              @ ''signal tb_done : bit := '' @ [CHR 0x27] @ ''0'' @ [CHR 0x27] @ '';\<newline>''
              @ ''begin\<newline>''
              @ ''dut : ha port map(a => a, b => b, s => s, co => co);\<newline>\<newline>''
              @ ''clk <= not clk after 0.5 * 5 ns when tb_done = '' @ [CHR 0x27] @ ''0''
              @ [CHR 0x27] @ '' else '' @ [CHR 0x27] @ ''0'' @ [CHR 0x27] @ '';\<newline>\<newline>''
              @ ''process\<newline>begin\<newline>'')"
proof -
  have plain: "\<forall>n \<in> set (concat (map identifiers ha_interfaces)). plain_key (trim n)"
    by (simp add: ha_interfaces_def plain_key_def is_array_index_def is_digit_def trim_defs)
  have names: "first_seen (map trim (concat (map identifiers ha_interfaces)))
                 = [''a'', ''b'', ''s'', ''co'']"
    by (simp add: ha_interfaces_def trim_defs)
  note t = ports_in_declaration_order [OF ha_interfaces_pins plain, of ha_tables ha_state]
  have k: "map fst ha_pins = [''a'', ''b'', ''s'', ''co'']"
    using t by (simp add: names)
  have e: "entries_of (Own ha_pins) = Inr ha_pins"
    using t by simp
  have o: "own_keys ha_pins = [''a'', ''b'', ''s'', ''co'']"
    using t by (simp add: names)
  from t have t4: "port_map (map fst ha_pins)
                     = join '', '' (map (\<lambda>p. p @ '' => '' @ p)
                         (first_seen (map trim (concat (map identifiers ha_interfaces)))))"
    by blast
  have j: "join '', '' (map (\<lambda>p. p @ '' => '' @ p)
             (first_seen (map trim (concat (map identifiers ha_interfaces)))))
           = ''a => a, b => b, s => s, co => co''"
    by (simp add: names)
  have m: "port_map (map fst ha_pins) = ''a => a, b => b, s => s, co => co''"
    by (simp only: t4 j)
  have l: "list_all (\<lambda>n. plain_key (trim n)) (concat (map identifiers ha_interfaces))"
    using plain by (simp add: list_all_iff)
  have p: "js_get (entityPins ha_tables) (entity ha_state) = Own ha_pins"
    by (simp add: js_get_def ha_tables_def ha_state_def)
  have h: "prop_text (js_get (entityHeads ha_tables) ''ha'')
             = ''is port (a, b : in std_logic; s, co : out std_logic);''"
    by (simp add: js_get_def ha_tables_def prop_text_def)
  from t p have "begin_directive ha_tables ha_state
       = Inr (''architecture tb of '' @ testbench ha_state @ '' is\<newline>''
                       @ ''component '' @ entity ha_state @ '' ''
                       @ prop_text (js_get (entityHeads ha_tables) (entity ha_state))
                       @ ''\<newline>''
                       @ ''end component;\<newline>\<newline>''
                       @ concat (map (\<lambda>e. ''signal '' @ fst e @ '' : '' @ type (snd e)
                                       @ (if fst e = clock ha_state
                                          then '' := '' @ [CHR 0x27] @ ''0'' @ [CHR 0x27]
                                          else '''')
                                       @ '';\<newline>'') ha_pins)
                       @ ''signal tb_done : bit := '' @ [CHR 0x27] @ ''0'' @ [CHR 0x27]
                       @ '';\<newline>''
                       @ ''begin\<newline>''
                       @ ''dut : '' @ entity ha_state @ '' port map(''
                       @ join '', '' (map (\<lambda>p. p @ '' => '' @ p)
                           (first_seen (map trim (concat (map identifiers ha_interfaces)))))
                       @ '');\<newline>\<newline>''
                       @ (if clock ha_state \<noteq> '''' then
                            clock ha_state @ '' <= not '' @ clock ha_state
                            @ '' after 0.5 * '' @ sync ha_state
                            @ '' when tb_done = '' @ [CHR 0x27] @ ''0'' @ [CHR 0x27]
                            @ '' else '' @ [CHR 0x27] @ ''0'' @ [CHR 0x27] @ '';\<newline>\<newline>''
                          else '''')
                       @ ''process\<newline>begin\<newline>'')"
    by blast
  then have b: "begin_directive ha_tables ha_state
       = Inr (''architecture tb of ha_tb is\<newline>''
              @ ''component ha is port (a, b : in std_logic; s, co : out std_logic);\<newline>''
              @ ''end component;\<newline>\<newline>''
              @ ''signal a : std_logic;\<newline>''
              @ ''signal b : std_logic;\<newline>''
              @ ''signal s : std_logic;\<newline>''
              @ ''signal co : std_logic;\<newline>''
              @ ''signal tb_done : bit := '' @ [CHR 0x27] @ ''0'' @ [CHR 0x27] @ '';\<newline>''
              @ ''begin\<newline>''
              @ ''dut : ha port map(a => a, b => b, s => s, co => co);\<newline>\<newline>''
              @ ''clk <= not clk after 0.5 * 5 ns when tb_done = '' @ [CHR 0x27] @ ''0''
              @ [CHR 0x27] @ '' else '' @ [CHR 0x27] @ ''0'' @ [CHR 0x27] @ '';\<newline>\<newline>''
              @ ''process\<newline>begin\<newline>'')"
    by (simp only: j) (simp add: h ha_state_def ha_pins_def std_logic_port_def)
  show ?thesis
    using ha_interfaces_pins l k e o m p b by blast
qed

subsection \<open>The loops of every\<close>

lemma every_names_found:
  "map (js_get ps) names = map Own infos \<Longrightarrow>
     sequence (map (every_name (Own ps)) names) = Inr (zip names (map Some infos))"
proof (induction names arbitrary: infos)
  case Nil
  then show ?case by simp
next
  case (Cons n names)
  then obtain i is' where infos: "infos = i # is'" and n: "js_get ps n = Own i"
    and rest: "map (js_get ps) names = map Own is'"
    by (cases infos) auto
  from Cons.IH [OF rest] n show ?case
    by (simp add: infos every_name_def)
qed

lemma every_loops_found:
  "length names = length infos \<Longrightarrow>
     sequence (map every_loop (enumerate k (zip names (map Some infos))))
       = Inr (map (\<lambda>(i, name, n).
                 ''for i_'' @ show_nat i @ '' in '' @ low n @ '' to '' @ high n @ '' loop\<newline>''
                 @ name @ '' <= '' @ converter n (''i_'' @ show_nat i) @ '';\<newline>'')
              (enumerate k (zip names infos)))"
proof (induction names arbitrary: infos k)
  case Nil
  then show ?case by simp
next
  case (Cons n names)
  then obtain i is' where infos: "infos = i # is'" and len: "length names = length is'"
    by (cases infos) auto
  from Cons.IH [OF len, of "Suc k"] show ?case
    by (simp add: infos every_loop_Some)
qed

lemma end_loops_commute:
  "concat (map (\<lambda>x. e) xs) @ e = e @ concat (map (\<lambda>x. e) xs)"
  by (induction xs) simp_all

lemma render_nest:
  "concat (map render_stmt (nest xs d))
     = concat (map (\<lambda>(i, name, n).
                 ''for i_'' @ show_nat i @ '' in '' @ low n @ '' to '' @ high n @ '' loop\<newline>''
                 @ name @ '' <= '' @ converter n (''i_'' @ show_nat i) @ '';\<newline>'') xs)
       @ ''wait for '' @ d @ '';\<newline>''
       @ concat (map (\<lambda>x. ''end loop;\<newline>'') xs)"
proof (induction xs d rule: nest.induct)
  case (1 d)
  show ?case by simp
next
  case (2 i name n rest d)
  have "concat (map (\<lambda>x. ''end loop;\<newline>'') rest) @ ''end loop;\<newline>''
          = ''end loop;\<newline>'' @ concat (map (\<lambda>x. ''end loop;\<newline>'') rest)"
    by (rule end_loops_commute)
  with 2 show ?case by simp
qed

lemma end_loops_count:
  "length xs = length ys \<Longrightarrow>
     concat (map (\<lambda>x. ''end loop;\<newline>'') xs) = concat (map (\<lambda>y. ''end loop;\<newline>'') ys)"
  by (induction xs ys rule: list_induct2) simp_all

lemma waits_of_loop:
  assumes "\<And>j. length (filter is_wait (f j)) = c"
  shows "length (filter is_wait (concat (map f js))) = length js * c"
  using assms by (induction js) simp_all

lemma waits_of_nest:
  "length (filter is_wait (concat (map (exec val vars) (nest xs d))))
     = prod_list (map (\<lambda>(i, name, n). domain_size (val (low n)) (val (high n))) xs)"
proof (induction xs d arbitrary: vars rule: nest.induct)
  case (1 d)
  show ?case by simp
next
  case (2 i name n rest d)
  let ?v = "''i_'' @ show_nat i"
  let ?body = "Assign name (converter n ?v) # nest rest d"
  let ?p = "prod_list (map (\<lambda>(i, name, n). domain_size (val (low n)) (val (high n))) rest)"
  have body: "length (filter is_wait (concat (map (exec val ((?v, j) # vars)) ?body))) = ?p"
    for j
    using "2.IH" [of "(?v, j) # vars"] by simp
  have "length (filter is_wait
          (concat (map (\<lambda>j. concat (map (exec val ((?v, j) # vars)) ?body))
                     [val (low n)..val (high n)])))
        = length [val (low n)..val (high n)] * ?p"
    using body by (rule waits_of_loop)
  then show ?case
    by (simp add: domain_size_def)
qed

lemma domains_of_enumerate:
  "length names = length infos \<Longrightarrow>
     map (\<lambda>(i, name, n). f n) (enumerate k (zip names infos)) = map f infos"
proof (induction names arbitrary: infos k)
  case Nil
  then show ?case by simp
next
  case (Cons n names)
  then obtain i is' where "infos = i # is'" and "length names = length is'"
    by (cases infos) auto
  with Cons.IH [of is' "Suc k"] show ?case by simp
qed

lemma legal_nest:
  assumes "\<forall>x \<in> set xs. \<forall>v \<in> set P \<union> (\<lambda>y. ''i_'' @ show_nat (fst y)) ` set xs.
             \<not> same_identifier (fst (snd x)) v"
  shows "list_all (legal P) (nest xs d)"
  using assms
proof (induction xs arbitrary: P)
  case Nil
  show ?case by simp
next
  case (Cons x xs)
  obtain i name n where x: "x = (i, name, n)" by (cases x)
  let ?v = "''i_'' @ show_nat i"
  have target: "\<not> list_ex (same_identifier name) (?v # P)"
    using Cons.prems by (auto simp: x list_ex_iff)
  have "list_all (legal (?v # P)) (nest xs d)"
    using Cons.prems by (intro Cons.IH) (auto simp: x)
  with target show ?case by (simp add: x)
qed

lemma enumerate_zip_members:
  assumes "x \<in> set (enumerate 0 (zip names infos))"
  shows "fst x < length names \<and> fst (snd x) \<in> set names"
proof -
  from assms have "fst x < length (zip names infos)"
    and "zip names infos ! fst x = snd x"
    by (simp_all add: in_set_enumerate_eq)
  then show ?thesis
    by (metis length_zip min_less_iff_conj nth_mem nth_zip fst_conv)
qed

text \<open>
  What the fragment of \<^verbatim>\<open>every\<close> is and does when every name of the directive (the
  explicit list, or else all the ports) is a port of the entity.  The fragment is the
  text of the loops over these signals, nested in the order of the list with the first
  outermost, each loop assigning the converted loop index to its signal, around a single
  wait for the sync duration, each loop closed after the loops inside it.  Run with any
  values for the bound texts, it waits once for every combination of indices: the product
  of the domain sizes; for a single signal the run is, for each index from the low to the
  high bound in turn, one assignment of the converted index followed by one wait.  The
  fragment is legal VHDL when no listed signal bears the name of one of its loop indices.
\<close>

lemma every_loops_of_ports:
  assumes "js_get (entityPins tabs) (entity st) = Own ps"
    and "every_list (Own ps) text = Inr names"
    and "map (js_get ps) names = map Own infos"
  shows "every_directive tabs st text
           = Inr (concat (map render_stmt (nest (enumerate 0 (zip names infos)) (sync st)))
                  @ ''\<newline>'')
         \<and> length (filter is_wait
                     (concat (map (exec val vars)
                                (nest (enumerate 0 (zip names infos)) (sync st)))))
             = prod_list (map (\<lambda>n. domain_size (val (low n)) (val (high n))) infos)
         \<and> (length names = 1 \<longrightarrow>
              concat (map (exec val vars) (nest (enumerate 0 (zip names infos)) (sync st)))
                = concat (map (\<lambda>j. [Driven (hd names) (converter (hd infos) ''i_0'')
                                         ((''i_0'', j) # vars),
                                       Waited (sync st)])
                            [val (low (hd infos))..val (high (hd infos))])
              \<and> length [val (low (hd infos))..val (high (hd infos))]
                  = domain_size (val (low (hd infos))) (val (high (hd infos)))
              \<and> distinct [val (low (hd infos))..val (high (hd infos))])
         \<and> ((\<forall>x \<in> set names. \<forall>k < length names. \<not> same_identifier x (''i_'' @ show_nat k))
              \<longrightarrow> list_all (legal []) (nest (enumerate 0 (zip names infos)) (sync st)))"
proof -
  let ?xs = "enumerate 0 (zip names infos)"
  have len: "length names = length infos"
    using assms(3) by (metis length_map)
  have names: "sequence (map (every_name (Own ps)) names) = Inr (zip names (map Some infos))"
    using assms(3) by (rule every_names_found)
  have loops: "sequence (map every_loop (enumerate 0 (zip names (map Some infos))))
                 = Inr (map (\<lambda>(i, name, n).
                    ''for i_'' @ show_nat i @ '' in '' @ low n @ '' to '' @ high n @ '' loop\<newline>''
                    @ name @ '' <= '' @ converter n (''i_'' @ show_nat i) @ '';\<newline>'') ?xs)"
    using len by (rule every_loops_found)
  have ends: "concat (map (\<lambda>n. ''end loop;\<newline>'') (zip names (map Some infos)))
                = concat (map (\<lambda>x. ''end loop;\<newline>'') ?xs)"
    using len by (intro end_loops_count) simp
  have frag: "every_directive tabs st text
                = Inr (concat (map render_stmt (nest ?xs (sync st))) @ ''\<newline>'')"
    unfolding render_nest
    by (simp add: every_directive_def assms(1,2) names loops ends del: enumerate_simps)
  have waits: "length (filter is_wait (concat (map (exec val vars) (nest ?xs (sync st)))))
                 = prod_list (map (\<lambda>n. domain_size (val (low n)) (val (high n))) infos)"
    unfolding waits_of_nest using len by (simp only: domains_of_enumerate)
  have single: "concat (map (exec val vars) (nest ?xs (sync st)))
                  = concat (map (\<lambda>j. [Driven (hd names) (converter (hd infos) ''i_0'')
                                           ((''i_0'', j) # vars),
                                         Waited (sync st)])
                              [val (low (hd infos))..val (high (hd infos))])"
    if "length names = 1"
  proof -
    from that len obtain x n where "names = [x]" and "infos = [n]"
      by (cases names; cases infos) auto
    then show ?thesis
      by (simp add: show_nat.simps digit_char_def)
  qed
  have count: "length [val (low (hd infos))..val (high (hd infos))]
                 = domain_size (val (low (hd infos))) (val (high (hd infos)))"
    by (simp add: domain_size_def)
  have ok: "list_all (legal []) (nest ?xs (sync st))"
    if free: "\<forall>x \<in> set names. \<forall>k < length names. \<not> same_identifier x (''i_'' @ show_nat k)"
  proof (rule legal_nest, intro ballI)
    fix x v
    assume x: "x \<in> set ?xs"
      and v: "v \<in> set [] \<union> (\<lambda>y. ''i_'' @ show_nat (fst y)) ` set ?xs"
    from v obtain y where y: "y \<in> set ?xs" and vy: "v = ''i_'' @ show_nat (fst y)"
      by auto
    from enumerate_zip_members [OF x] enumerate_zip_members [OF y] free
    show "\<not> same_identifier (fst (snd x)) v"
      unfolding vy by blast
  qed
  show ?thesis
    using frag waits single count ok by simp
qed

lemma every_loops_of_ports_ha:
  "js_get (entityPins ha_tables) (entity ha_state) = Own ha_pins
   \<and> every_list (Own ha_pins) ''every (a, b);'' = Inr [''a'', ''b'']
   \<and> map (js_get ha_pins) [''a'', ''b''] = map Own [std_logic_port ''in'', std_logic_port ''in'']
   \<and> every_directive ha_tables ha_state ''every (a, b);''
       = Inr (''for i_0 in 0 to 1 loop\<newline>''
              @ ''a <= std_logic'' @ [CHR 0x27] @ ''val(i_0);\<newline>''
              @ ''for i_1 in 0 to 1 loop\<newline>''
              @ ''b <= std_logic'' @ [CHR 0x27] @ ''val(i_1);\<newline>''
              @ ''wait for 5 ns;\<newline>''
              @ ''end loop;\<newline>''
              @ ''end loop;\<newline>''
              @ ''\<newline>'')
   \<and> length (filter is_wait
        (concat (map (exec (\<lambda>s. int (dec_value s)) [])
           (nest (enumerate 0 (zip [''a'', ''b'']
                    [std_logic_port ''in'', std_logic_port ''in''])) (sync ha_state)))))
       = 4"
proof -
  have p: "js_get (entityPins ha_tables) (entity ha_state) = Own ha_pins"
    by (simp add: js_get_def ha_tables_def ha_state_def)
  have l: "every_list (Own ha_pins) ''every (a, b);'' = Inr [''a'', ''b'']"
    by (simp add: every_list_def match_every_def filter_Boolean_def trim_defs)
  have i: "map (js_get ha_pins) [''a'', ''b'']
             = map Own [std_logic_port ''in'', std_logic_port ''in'']"
    by (simp add: js_get_def ha_pins_def)
  note t = every_loops_of_ports [OF p l i, of "\<lambda>s. int (dec_value s)" "[]"]
  have d: "dec_value ''0'' = 0" "dec_value ''1'' = 1"
    by (simp_all add: dec_value_def digit_value_def)
  have n: "show_nat 0 = ''0''" "show_nat (Suc 0) = ''1''"
    by (simp_all add: show_nat.simps digit_char_def)
  from t have t1: "every_directive ha_tables ha_state ''every (a, b);''
           = Inr (concat (map render_stmt
                    (nest (enumerate 0 (zip [''a'', ''b'']
                       [std_logic_port ''in'', std_logic_port ''in''])) (sync ha_state)))
                  @ ''\<newline>'')"
    by blast
  have e: "every_directive ha_tables ha_state ''every (a, b);''
       = Inr (''for i_0 in 0 to 1 loop\<newline>''
              @ ''a <= std_logic'' @ [CHR 0x27] @ ''val(i_0);\<newline>''
              @ ''for i_1 in 0 to 1 loop\<newline>''
              @ ''b <= std_logic'' @ [CHR 0x27] @ ''val(i_1);\<newline>''
              @ ''wait for 5 ns;\<newline>''
              @ ''end loop;\<newline>''
              @ ''end loop;\<newline>''
              @ ''\<newline>'')"
    unfolding t1 by (simp add: n std_logic_port_def ha_state_def)
  from t have t2: "length (filter is_wait
        (concat (map (exec (\<lambda>s. int (dec_value s)) [])
           (nest (enumerate 0 (zip [''a'', ''b'']
                    [std_logic_port ''in'', std_logic_port ''in''])) (sync ha_state)))))
       = prod_list (map (\<lambda>n. domain_size (int (dec_value (low n))) (int (dec_value (high n))))
                      [std_logic_port ''in'', std_logic_port ''in''])"
    by blast
  have w: "length (filter is_wait
        (concat (map (exec (\<lambda>s. int (dec_value s)) [])
           (nest (enumerate 0 (zip [''a'', ''b'']
                    [std_logic_port ''in'', std_logic_port ''in''])) (sync ha_state)))))
       = 4"
    unfolding t2 by (simp add: std_logic_port_def domain_size_def d)
  show ?thesis
    using p l i e w by blast
qed

text \<open>
  Claim C4 does not hold of the code.  The claim is that each loop of the fragment
  drives its signal to the converted value of the loop index.  The loop indices are named
  \<^verbatim>\<open>i_0\<close>, \<^verbatim>\<open>i_1\<close> and so on, whatever the ports are called.  For an entity with a port
  \<^verbatim>\<open>i_0\<close> the directive \<^verbatim>\<open>every (i_0);\<close> yields a loop over \<^verbatim>\<open>i_0\<close> whose body assigns to
  \<^verbatim>\<open>i_0\<close>: there the name denotes the loop parameter, not the port, so the fragment is not
  legal VHDL and no value is driven on the signal.
\<close>

theorem loop_index_hides_signal:
  "js_get (entityPins probe_tables) (entity probe_state) = Own [(''i_0'', std_logic_port ''in'')]
   \<and> every_directive probe_tables probe_state ''every (i_0);''
       = Inr (''for i_0 in 0 to 1 loop\<newline>''
              @ ''i_0 <= std_logic'' @ [CHR 0x27] @ ''val(i_0);\<newline>''
              @ ''wait for 1 ns;\<newline>''
              @ ''end loop;\<newline>''
              @ ''\<newline>'')
   \<and> concat (map render_stmt
         [For ''i_0'' ''0'' ''1''
            [Assign ''i_0'' (''std_logic'' @ [CHR 0x27] @ ''val(i_0)''), Wait ''1 ns'']])
       = ''for i_0 in 0 to 1 loop\<newline>''
         @ ''i_0 <= std_logic'' @ [CHR 0x27] @ ''val(i_0);\<newline>''
         @ ''wait for 1 ns;\<newline>''
         @ ''end loop;\<newline>''
   \<and> \<not> list_all (legal [])
         [For ''i_0'' ''0'' ''1''
            [Assign ''i_0'' (''std_logic'' @ [CHR 0x27] @ ''val(i_0)''), Wait ''1 ns'']]"
proof -
  have p: "js_get (entityPins probe_tables) (entity probe_state)
             = Own [(''i_0'', std_logic_port ''in'')]"
    by (simp add: js_get_def probe_tables_def probe_state_def)
  have l: "every_list (Own [(''i_0'', std_logic_port ''in'')]) ''every (i_0);'' = Inr [''i_0'']"
    by (simp add: every_list_def match_every_def filter_Boolean_def trim_defs)
  have n: "every_name (Own [(''i_0'', std_logic_port ''in'')]) ''i_0''
             = Inr (''i_0'', Some (std_logic_port ''in''))"
    by (simp add: every_name_def js_get_def)
  have z: "show_nat 0 = ''0''"
    by (simp add: show_nat.simps digit_char_def)
  have e: "every_directive probe_tables probe_state ''every (i_0);''
       = Inr (''for i_0 in 0 to 1 loop\<newline>''
              @ ''i_0 <= std_logic'' @ [CHR 0x27] @ ''val(i_0);\<newline>''
              @ ''wait for 1 ns;\<newline>''
              @ ''end loop;\<newline>''
              @ ''\<newline>'')"
    by (simp add: every_directive_def p l n every_loop_Some z)
       (simp add: std_logic_port_def probe_state_def)
  have r: "concat (map render_stmt
         [For ''i_0'' ''0'' ''1''
            [Assign ''i_0'' (''std_logic'' @ [CHR 0x27] @ ''val(i_0)''), Wait ''1 ns'']])
       = ''for i_0 in 0 to 1 loop\<newline>''
         @ ''i_0 <= std_logic'' @ [CHR 0x27] @ ''val(i_0);\<newline>''
         @ ''wait for 1 ns;\<newline>''
         @ ''end loop;\<newline>''"
    by simp
  have g: "\<not> list_all (legal [])
         [For ''i_0'' ''0'' ''1''
            [Assign ''i_0'' (''std_logic'' @ [CHR 0x27] @ ''val(i_0)''), Wait ''1 ns'']]"
    by (simp add: same_identifier_def)
  show ?thesis
    using p e r g by blast
qed

end
